theory Spec2Isabelle
  imports Complex_Main "HOL-Library.Word" "HOL-Library.Multiset"
begin

unbundle bit_operations_syntax

section \<open>Data model of \<open>widget.js\<close>\<close>

text \<open>
  The widget keeps its cells in two GPU storage buffers of \<open>u32\<close> values and advances
  them with a WGSL compute shader; a render shader draws one quad per cell.

  \<^item> WGSL \<open>u32\<close> is \<open>32 word\<close>: \<open>+\<close>, \<open>-\<close> and \<open>*\<close> wrap, \<open>/\<close> by the constant 3 is
    the unsigned \<open>div\<close>, \<open>%\<close> is the unsigned \<open>mod\<close> with the value 0 for a zero
    divisor (\<open>umod\<close>), \<open>&\<close> is \<open>AND\<close>, and a constant \<open>c << n\<close> is \<open>push_bit n c\<close>.
  \<^item> A finite \<open>f32\<close> or JavaScript number is the real number it denotes. An \<open>f32\<close>
    operation of WGSL is the exact operation followed by rounding to 24 significant
    bits, to nearest with ties to even (\<open>round_f32\<close>); a JavaScript number literal and
    a \<open>Float32Array\<close> element are rounded the same way to 53 and to 24 bits.
    Division is rounded like the other operations, as IEEE 754 has it. The exponent
    range is not bounded: the numbers the cell shader computes on the 512 by 512 grid
    are zero or of a magnitude between \<open>2 ^ - 11\<close> and \<open>2 ^ 32\<close>. Comparisons
    of JavaScript numbers are exact. The counter \<open>step\<close> is a natural number, which a
    JavaScript number represents exactly for the first \<open>2 ^ 53\<close> ticks.
  \<^item> \<open>cellStateStorage\<close>, the JavaScript array of the two GPU buffers, is a store
    from the array index to the buffer's contents; a bind group names the buffers it
    binds by that index, so that reading and writing through a bind group goes through
    the store and aliasing between binding 1 and binding 2 is visible.
  \<^item> An access to a storage buffer outside its bounds has no value determined by the
    source: loads and stores return \<open>None\<close> there.
\<close>

type_synonym u32 = "32 word"
type_synonym vec2f = "real \<times> real"
type_synonym vec4f = "real \<times> real \<times> real \<times> real"
type_synonym vec2u = "u32 \<times> u32"
type_synonym vec3u = "u32 \<times> u32 \<times> u32"
type_synonym memory = "nat \<Rightarrow> u32 list"

definition GRID_SIZE :: nat where
  "GRID_SIZE = 512"

definition WORKGROUP_SIZE :: nat where
  "WORKGROUP_SIZE = 8"

text \<open>\<open>new Float32Array([GRID_SIZE, GRID_SIZE])\<close>, the contents of the uniform buffer.\<close>

definition uniformArray :: vec2f where
  "uniformArray = (real GRID_SIZE, real GRID_SIZE)"

text \<open>
  A bind group of \<open>bindGroupLayout\<close>: binding 0 is the grid uniform, binding 1 the
  read-only cell state, binding 2 the writable cell state; the last two are indices
  into \<open>cellStateStorage\<close>.
\<close>

record bindGroup =
  binding0 :: vec2f
  binding1 :: nat
  binding2 :: nat

definition bindGroups :: "bindGroup list" where
  "bindGroups =
     [\<lparr>binding0 = uniformArray, binding1 = 0, binding2 = 1\<rparr>,
      \<lparr>binding0 = uniformArray, binding1 = 1, binding2 = 0\<rparr>]"

definition load :: "u32 list \<Rightarrow> u32 \<Rightarrow> u32 option" where
  "load buf i = (if unat i < length buf then Some (buf ! unat i) else None)"

definition store :: "u32 list \<Rightarrow> u32 \<Rightarrow> u32 \<Rightarrow> u32 list option" where
  "store buf i v = (if unat i < length buf then Some (buf[unat i := v]) else None)"

section \<open>The simulation shader\<close>

text \<open>
  The WGSL conversion \<open>u32(e)\<close> of an \<open>f32\<close>: truncation towards zero, clamped to the
  range of \<open>u32\<close>.
\<close>

definition u32_of_f32 :: "real \<Rightarrow> u32" where
  "u32_of_f32 r = word_of_int (max 0 (min (2 ^ 32 - 1) \<lfloor>r\<rfloor>))"

text \<open>
  WGSL's \<open>e1 % e2\<close> on \<open>u32\<close>: the remainder, and 0 when \<open>e2\<close> is zero.
\<close>

definition umod :: "u32 \<Rightarrow> u32 \<Rightarrow> u32" where
  "umod e1 e2 = (if e2 = 0 then 0 else e1 mod e2)"

text \<open>\<open>cellIndex\<close> of the simulation shader.\<close>

definition cellIndex :: "vec2f \<Rightarrow> vec2u \<Rightarrow> u32" where
  "cellIndex grid cell =
     umod (snd cell) (u32_of_f32 (snd grid)) * u32_of_f32 (fst grid)
       + umod (fst cell) (u32_of_f32 (fst grid))"

definition cellColor :: "bindGroup \<Rightarrow> memory \<Rightarrow> u32 \<Rightarrow> u32 \<Rightarrow> u32 option" where
  "cellColor bg mem x y = load (mem (binding1 bg)) (cellIndex (binding0 bg) (x, y))"

text \<open>
  The loop of \<open>averageColor\<close>, \<open>for (var i = 0; i < 8; i++)\<close>, with the three
  accumulators \<open>r\<close>, \<open>g\<close>, \<open>b\<close> as its state.
\<close>

function averageColor_loop :: "u32 list \<Rightarrow> nat \<Rightarrow> u32 \<times> u32 \<times> u32 \<Rightarrow> u32 \<times> u32 \<times> u32" where
  "averageColor_loop colors i (r, g, b) =
     (if i < 8
      then averageColor_loop colors (i + 1)
             (r + (colors ! i AND 255),
              g + (colors ! i AND push_bit 8 255),
              b + (colors ! i AND push_bit 16 255))
      else (r, g, b))"
  by pat_completeness auto
termination
  by (relation "measure (\<lambda>(colors, i, acc). 8 - i)") auto

declare averageColor_loop.simps [simp del]

definition averageColor :: "u32 list \<Rightarrow> u32" where
  "averageColor colors =
     (case averageColor_loop colors 0 (0, 0, 0) of (r, g, b) \<Rightarrow>
        (((r + 2) div 3) AND 255)
        + (((g + push_bit 8 2) div 3) AND push_bit 8 255)
        + (((b + push_bit 16 2) div 3) AND push_bit 16 255))"

function countNonZero_loop :: "u32 list \<Rightarrow> nat \<Rightarrow> u32 \<Rightarrow> u32" where
  "countNonZero_loop colors i cnt =
     (if i < 8
      then countNonZero_loop colors (i + 1)
             (if colors ! i \<noteq> 0 then cnt + 1 else cnt)
      else cnt)"
  by pat_completeness auto
termination
  by (relation "measure (\<lambda>(colors, i, cnt). 8 - i)") auto

declare countNonZero_loop.simps [simp del]

definition countNonZero :: "u32 list \<Rightarrow> u32" where
  "countNonZero colors = countNonZero_loop colors 0 0"

text \<open>
  The array \<open>neighbourColors\<close> that \<open>computeMain\<close> builds for the invocation \<open>cell\<close>,
  in the order of the source. \<open>cell.x - 1\<close> and \<open>cell.y - 1\<close> wrap around in \<open>u32\<close>
  before \<open>cellIndex\<close> reduces them.
\<close>

definition neighbourColors :: "bindGroup \<Rightarrow> memory \<Rightarrow> vec3u \<Rightarrow> u32 list option" where
  "neighbourColors bg mem cell =
     (case cell of (x, y, z) \<Rightarrow>
        (case cellColor bg mem (x + 1) (y + 1) of None \<Rightarrow> None | Some c0 \<Rightarrow>
        (case cellColor bg mem (x + 1) y of None \<Rightarrow> None | Some c1 \<Rightarrow>
        (case cellColor bg mem (x + 1) (y - 1) of None \<Rightarrow> None | Some c2 \<Rightarrow>
        (case cellColor bg mem x (y - 1) of None \<Rightarrow> None | Some c3 \<Rightarrow>
        (case cellColor bg mem (x - 1) (y - 1) of None \<Rightarrow> None | Some c4 \<Rightarrow>
        (case cellColor bg mem (x - 1) y of None \<Rightarrow> None | Some c5 \<Rightarrow>
        (case cellColor bg mem (x - 1) (y + 1) of None \<Rightarrow> None | Some c6 \<Rightarrow>
        (case cellColor bg mem x (y + 1) of None \<Rightarrow> None | Some c7 \<Rightarrow>
           Some [c0, c1, c2, c3, c4, c5, c6, c7])))))))))"

text \<open>\<open>cellStateOut[i] = v\<close>: a store through binding 2.\<close>

definition writeOut :: "bindGroup \<Rightarrow> memory \<Rightarrow> u32 \<Rightarrow> u32 \<Rightarrow> memory option" where
  "writeOut bg mem i v =
     (case store (mem (binding2 bg)) i v of
        None \<Rightarrow> None
      | Some buf \<Rightarrow> Some (mem(binding2 bg := buf)))"

text \<open>
  One invocation of \<open>computeMain\<close>. A WGSL \<open>switch\<close> runs exactly one clause: there
  is no fall-through from \<open>case 2\<close> into \<open>case 3\<close> or \<open>default\<close>.
\<close>

definition computeMain :: "bindGroup \<Rightarrow> memory \<Rightarrow> vec3u \<Rightarrow> memory option" where
  "computeMain bg mem cell =
     (case neighbourColors bg mem cell of
        None \<Rightarrow> None
      | Some colors \<Rightarrow>
          (let i = cellIndex (binding0 bg) (fst cell, fst (snd cell));
               n = countNonZero colors
           in if n = 2 then
                (case load (mem (binding1 bg)) i of
                   None \<Rightarrow> None
                 | Some v \<Rightarrow> writeOut bg mem i v)
              else if n = 3 then writeOut bg mem i (averageColor colors)
              else writeOut bg mem i 0))"

text \<open>
  \<open>dispatchWorkgroups(workgroupCount, workgroupCount)\<close> with workgroups of
  \<open>WORKGROUP_SIZE \<times> WORKGROUP_SIZE\<close> invocations starts one invocation for every
  \<open>global_invocation_id\<close> \<open>(x, y, 0)\<close> with \<open>x\<close> and \<open>y\<close> below
  \<open>workgroupCount * WORKGROUP_SIZE\<close>. The device runs them in parallel; the model
  runs them one after the other, in row order.
\<close>

definition workgroupCount :: nat where
  "workgroupCount = nat \<lceil>real GRID_SIZE / real WORKGROUP_SIZE\<rceil>"

definition global_invocation_ids :: "nat \<Rightarrow> vec3u list" where
  "global_invocation_ids wc =
     concat (map (\<lambda>y. map (\<lambda>x. (of_nat x, of_nat y, 0)) [0..<wc * WORKGROUP_SIZE])
                 [0..<wc * WORKGROUP_SIZE])"

fun run_invocations :: "bindGroup \<Rightarrow> memory \<Rightarrow> vec3u list \<Rightarrow> memory option" where
  "run_invocations bg mem [] = Some mem"
| "run_invocations bg mem (cell # cells) =
     (case computeMain bg mem cell of
        None \<Rightarrow> None
      | Some mem' \<Rightarrow> run_invocations bg mem' cells)"

definition computePass :: "bindGroup \<Rightarrow> memory \<Rightarrow> memory option" where
  "computePass bg mem = run_invocations bg mem (global_invocation_ids workgroupCount)"

section \<open>Floating-point numbers\<close>

text \<open>
  Rounding to the nearest integer, ties to the even one, and rounding of a real number
  to \<open>p\<close> significant bits: the unit \<open>u\<close> is the power of two for which
  \<open>2 ^ (p - 1) * u \<le> \<bar>r\<bar> < 2 ^ p * u\<close>, and the result is the multiple of \<open>u\<close> nearest
  to \<open>r\<close>.
\<close>

definition rne :: "real \<Rightarrow> int" where
  "rne q =
     (let f = \<lfloor>q\<rfloor>; d = q - of_int f
      in if d < 1 / 2 then f
         else if 1 / 2 < d then f + 1
         else if even f then f else f + 1)"

definition round_to :: "nat \<Rightarrow> real \<Rightarrow> real" where
  "round_to p r =
     (if r = 0 then 0
      else (let u = 2 powi (\<lfloor>log 2 \<bar>r\<bar>\<rfloor> - (int p - 1))
            in of_int (rne (r / u)) * u))"

definition round_f32 :: "real \<Rightarrow> real" where
  "round_f32 r = round_to 24 r"

text \<open>
  The value of a JavaScript number literal written as the decimal \<open>d\<close>, and the value
  a \<open>Float32Array\<close> stores for the number \<open>d\<close> (\<open>Math.fround\<close>).
\<close>

definition double_literal :: "real \<Rightarrow> real" where
  "double_literal d = round_to 53 d"

definition fround :: "real \<Rightarrow> real" where
  "fround d = round_f32 d"

text \<open>The \<open>f32\<close> operations of WGSL, and the conversion \<open>f32(e)\<close> of a \<open>u32\<close>.\<close>

definition f32_add :: "real \<Rightarrow> real \<Rightarrow> real" where
  "f32_add a b = round_f32 (a + b)"

definition f32_sub :: "real \<Rightarrow> real \<Rightarrow> real" where
  "f32_sub a b = round_f32 (a - b)"

definition f32_mul :: "real \<Rightarrow> real \<Rightarrow> real" where
  "f32_mul a b = round_f32 (a * b)"

definition f32_div :: "real \<Rightarrow> real \<Rightarrow> real" where
  "f32_div a b = round_f32 (a / b)"

definition f32_of_u32 :: "u32 \<Rightarrow> real" where
  "f32_of_u32 c = round_f32 (real (unat c))"

section \<open>Seeding\<close>

text \<open>
  The value the seeding loop stores for one sample of \<open>Math.random()\<close>. The sample is
  compared with the values of the literals \<open>0.04\<close>, \<open>0.08\<close> and \<open>0.12\<close>. The shifts
  \<open>255 << 8\<close> and \<open>255 << 16\<close> stay below \<open>2 ^ 31\<close>, so the \<open>Uint32Array\<close> element
  holds the shifted value itself.
\<close>

definition cellValue :: "real \<Rightarrow> u32" where
  "cellValue random =
     (if random < double_literal 0.04 then 255
      else if random < double_literal 0.08 then push_bit 8 255
      else if random < double_literal 0.12 then push_bit 16 255
      else 0)"

text \<open>
  The loop \<open>for (let i = 0; i < cellStateArray.length; i++)\<close>. Each iteration calls
  \<open>Math.random()\<close> once: \<open>rnd i\<close> is the sample drawn in iteration \<open>i\<close>.
\<close>

function seed_loop :: "(nat \<Rightarrow> real) \<Rightarrow> u32 list \<Rightarrow> nat \<Rightarrow> u32 list" where
  "seed_loop rnd cellStateArray i =
     (if i < length cellStateArray
      then seed_loop rnd (cellStateArray[i := cellValue (rnd i)]) (i + 1)
      else cellStateArray)"
  by pat_completeness auto
termination
  by (relation "measure (\<lambda>(rnd, cellStateArray, i). length cellStateArray - i)") auto

declare seed_loop.simps [simp del]

text \<open>
  \<open>device.createBuffer\<close> gives a buffer of zeros; \<open>device.queue.writeBuffer(b, 0, data)\<close>
  overwrites the buffer from offset 0 with \<open>data\<close>.
\<close>

definition createBuffer :: "nat \<Rightarrow> u32 list" where
  "createBuffer n = replicate n 0"

definition writeBuffer :: "memory \<Rightarrow> nat \<Rightarrow> u32 list \<Rightarrow> memory" where
  "writeBuffer mem k data = mem(k := data @ drop (length data) (mem k))"

record state =
  cellStateStorage :: memory
  step :: nat

text \<open>
  The module's top level up to the first call of \<open>updateGrid\<close>: the typed array of
  \<open>GRID_SIZE * GRID_SIZE\<close> zeros, the two buffers of its size, the seeding loop, the one
  \<open>writeBuffer\<close> into \<open>cellStateStorage[0]\<close>, and \<open>step = 0\<close>.
\<close>

definition initial_state :: "(nat \<Rightarrow> real) \<Rightarrow> state" where
  "initial_state rnd =
     (let cellStateArray = replicate (GRID_SIZE * GRID_SIZE) 0;
          storage = (\<lambda>k. [])(0 := createBuffer (length cellStateArray),
                              1 := createBuffer (length cellStateArray));
          seeded = seed_loop rnd cellStateArray 0
      in \<lparr>cellStateStorage = writeBuffer storage 0 seeded, step = 0\<rparr>)"

section \<open>The cell shader\<close>

text \<open>
  \<open>new Float32Array([-0.7, -0.7, 0.7, -0.7, ...])\<close> read with the vertex buffer layout
  \<open>float32x2\<close>: six points.
\<close>

definition vertices :: "vec2f list" where
  "vertices =
     [(fround (- double_literal 0.7), fround (- double_literal 0.7)),
      (fround (double_literal 0.7), fround (- double_literal 0.7)),
      (fround (double_literal 0.7), fround (double_literal 0.7)),
      (fround (- double_literal 0.7), fround (- double_literal 0.7)),
      (fround (double_literal 0.7), fround (double_literal 0.7)),
      (fround (- double_literal 0.7), fround (double_literal 0.7))]"

text \<open>
  WGSL's \<open>trunc\<close>, and \<open>e1 % e2\<close> on \<open>f32\<close>, which is \<open>e1 - e2 * trunc(e1 / e2)\<close>.
\<close>

definition trunc :: "real \<Rightarrow> real" where
  "trunc r = (if 0 \<le> r then real_of_int \<lfloor>r\<rfloor> else real_of_int \<lceil>r\<rceil>)"

definition fmod :: "real \<Rightarrow> real \<Rightarrow> real" where
  "fmod e1 e2 = f32_sub e1 (f32_mul e2 (trunc (f32_div e1 e2)))"

text \<open>The values \<open>cell\<close> and \<open>gridPos\<close> that \<open>vertexMain\<close> computes.\<close>

definition vertexCell :: "vec2f \<Rightarrow> u32 \<Rightarrow> vec2f" where
  "vertexCell grid instance =
     (let i = f32_of_u32 instance
      in (fmod i (fst grid), real_of_int \<lfloor>f32_div i (fst grid)\<rfloor>))"

definition gridPos :: "vec2f \<Rightarrow> vec2f \<Rightarrow> u32 \<Rightarrow> vec2f" where
  "gridPos grid p instance =
     (let c = vertexCell grid instance;
          cellOffset = (f32_div (f32_mul (fst c) 2) (fst grid),
                        f32_div (f32_mul (snd c) 2) (snd grid))
      in (f32_add (f32_sub (f32_div (f32_add (fst p) 1) (fst grid)) 1) (fst cellOffset),
          f32_add (f32_sub (f32_div (f32_add (snd p) 1) (snd grid)) 1) (snd cellOffset)))"

record VertexOutput =
  pos :: vec4f
  cell :: vec2f

definition vertexMain :: "vec2f \<Rightarrow> u32 list \<Rightarrow> vec2f \<Rightarrow> u32 \<Rightarrow> VertexOutput option" where
  "vertexMain grid cellState p instance =
     (case load cellState instance of
        None \<Rightarrow> None
      | Some c \<Rightarrow>
          (let state = f32_of_u32 c;
               gp = gridPos grid p instance
           in Some \<lparr>pos = (f32_mul (fst gp) state, f32_mul (snd gp) state,
                           f32_mul 0 state, f32_mul 1 state),
                    cell = vertexCell grid instance\<rparr>))"

text \<open>
  The vertex stage of \<open>pass.draw(vertices.length / 2, GRID_SIZE * GRID_SIZE)\<close>: one
  invocation of \<open>vertexMain\<close> for every instance and every vertex of the template,
  reading the buffer at binding 1. Rasterisation and the fragment stage are not
  modelled.
\<close>

definition renderPass :: "bindGroup \<Rightarrow> memory \<Rightarrow> VertexOutput option list" where
  "renderPass bg mem =
     concat (map (\<lambda>inst. map (\<lambda>p. vertexMain (binding0 bg) (mem (binding1 bg)) p (of_nat inst))
                              vertices)
                 [0..<GRID_SIZE * GRID_SIZE])"

section \<open>The frame loop\<close>

text \<open>
  What one call of \<open>updateGrid\<close> encodes and submits: the bind group of the compute
  pass, the bind group of the render pass, and what the render pass draws.
\<close>

record tick =
  computeBindGroup :: bindGroup
  renderBindGroup :: bindGroup
  frame :: "VertexOutput option list"

definition updateGrid :: "state \<Rightarrow> (tick \<times> state) option" where
  "updateGrid s =
     (let cbg = bindGroups ! (step s mod 2)
      in case computePass cbg (cellStateStorage s) of
           None \<Rightarrow> None
         | Some mem' \<Rightarrow>
             (let step' = step s + 1;
                  rbg = bindGroups ! (step' mod 2)
              in Some (\<lparr>computeBindGroup = cbg, renderBindGroup = rbg,
                          frame = renderPass rbg mem'\<rparr>,
                       \<lparr>cellStateStorage = mem', step = step'\<rparr>)))"

text \<open>
  \<open>window.requestAnimationFrame(updateGrid)\<close> calls \<open>updateGrid\<close> again for the next
  frame: \<open>run_ticks k s\<close> is the state after \<open>k\<close> calls.
\<close>

fun run_ticks :: "nat \<Rightarrow> state \<Rightarrow> state option" where
  "run_ticks 0 s = Some s"
| "run_ticks (Suc k) s =
     (case run_ticks k s of
        None \<Rightarrow> None
      | Some s' \<Rightarrow> map_option snd (updateGrid s'))"

section \<open>Notions used to state the properties\<close>

text \<open>
  The row-major index \<open>y * N + x\<close> of the cell whose coordinates are \<open>a\<close> and \<open>b\<close>
  reduced modulo \<open>N = GRID_SIZE\<close> (the mathematical \<open>mod\<close>, with a result in
  \<open>0 .. N - 1\<close> also for \<open>-1\<close>).
\<close>

definition wrapIndex :: "int \<Rightarrow> int \<Rightarrow> nat" where
  "wrapIndex a b = nat (b mod int GRID_SIZE) * GRID_SIZE + nat (a mod int GRID_SIZE)"

text \<open>The offsets of the Moore neighbourhood, in the order of \<open>neighbourColors\<close>.\<close>

definition neighbourOffsets :: "(int \<times> int) list" where
  "neighbourOffsets = [(1, 1), (1, 0), (1, -1), (0, -1), (-1, -1), (-1, 0), (-1, 1), (0, 1)]"

definition neighbours :: "u32 list \<Rightarrow> int \<Rightarrow> int \<Rightarrow> u32 list" where
  "neighbours buf x y = map (\<lambda>(dx, dy). buf ! wrapIndex (x + dx) (y + dy)) neighbourOffsets"

text \<open>
  The value of cell \<open>(x, y)\<close> in the next generation as a function of the read buffer
  alone, and the same by row-major index.
\<close>

definition nextCell :: "u32 list \<Rightarrow> int \<Rightarrow> int \<Rightarrow> u32" where
  "nextCell buf x y =
     (let n = countNonZero (neighbours buf x y)
      in if n = 2 then buf ! wrapIndex x y
         else if n = 3 then averageColor (neighbours buf x y)
         else 0)"

definition nextAt :: "u32 list \<Rightarrow> nat \<Rightarrow> u32" where
  "nextAt buf j = nextCell buf (int (j mod GRID_SIZE)) (int (j div GRID_SIZE))"

text \<open>
  Channel \<open>k\<close> of a packed colour: 0 is red (bits 0 to 7), 1 green, 2 blue, 3 the unused
  top byte.
\<close>

definition channel :: "nat \<Rightarrow> u32 \<Rightarrow> nat" where
  "channel k c = (unat c div 2 ^ (8 * k)) mod 256"

text \<open>
  The colour average in the words of the specification, on unbounded naturals: each
  channel summed in place over all the colours, the bias 2 shifted to the channel's
  position added, the sum divided by 3, the quotient masked with the channel's mask.
\<close>

definition averageColor_spec :: "nat list \<Rightarrow> nat" where
  "averageColor_spec colors =
     (let r = sum_list (map (\<lambda>c. c AND 255) colors);
          g = sum_list (map (\<lambda>c. c AND push_bit 8 255) colors);
          b = sum_list (map (\<lambda>c. c AND push_bit 16 255) colors)
      in (((r + 2) div 3) AND 255)
         + (((g + push_bit 8 2) div 3) AND push_bit 8 255)
         + (((b + push_bit 16 2) div 3) AND push_bit 16 255))"





text \<open>The row-major index of the cell that the invocation \<open>c\<close> writes.\<close>

definition writtenIndex :: "vec3u \<Rightarrow> nat" where
  "writtenIndex c = unat (cellIndex uniformArray (fst c, fst (snd c)))"

section \<open>Indices and wrap-around\<close>

lemma u32_of_f32_GRID: "u32_of_f32 (real GRID_SIZE) = 512"
  by (simp add: u32_of_f32_def GRID_SIZE_def)

lemma workgroupCount_eq: "workgroupCount = 64"
  by (simp add: workgroupCount_def GRID_SIZE_def WORKGROUP_SIZE_def)


lemma uint_succ_mod: "uint (x + 1 :: u32) mod 512 = (uint x + 1) mod 512"
proof -
  have "uint (x + 1) = (uint x + 1) mod 2 ^ 32" by (simp add: uint_word_ariths)
  then show ?thesis by (simp add: mod_mod_cancel)
qed

lemma uint_pred_mod: "uint (x - 1 :: u32) mod 512 = (uint x - 1) mod 512"
proof -
  have "uint (x - 1) = (uint x - 1) mod 2 ^ 32" by (simp add: uint_word_ariths)
  then show ?thesis by (simp add: mod_mod_cancel)
qed

lemma unat_mod_512: "unat (x :: u32) mod 512 = nat (uint x mod 512)"
  by (simp add: nat_mod_distrib)

lemma row_major_less: "a < n \<Longrightarrow> b < n \<Longrightarrow> a * n + b < n * (n::nat)"
proof -
  assume a: "a < n" and b: "b < n"
  have "Suc a \<le> n" using a by simp
  then have le: "Suc a * n \<le> n * n" by (rule mult_le_mono1)
  have "a * n + b < a * n + n" using b by simp
  also have "\<dots> = Suc a * n" by simp
  finally show ?thesis using le by (rule less_le_trans)
qed

lemma unat_cellIndex:
  "unat (cellIndex uniformArray (x, y)) = (unat y mod 512) * 512 + unat x mod 512"
proof -
  define k where "k = (unat y mod 512) * 512 + unat x mod 512"
  have a: "unat (y mod 512) = unat y mod 512" by (simp add: unat_mod)
  have b: "unat (x mod 512) = unat x mod 512" by (simp add: unat_mod)
  have "(unat y mod 512) * 512 + unat x mod 512 < 512 * 512"
    by (rule row_major_less) simp_all
  then have c: "k < 2 ^ 32" by (simp add: k_def)
  have "cellIndex uniformArray (x, y) = (y mod 512) * 512 + (x mod 512)"
    by (simp add: cellIndex_def umod_def uniformArray_def u32_of_f32_GRID)
  also have "\<dots> = of_nat k"
    by (simp add: k_def a [symmetric] b [symmetric])
  finally have "unat (cellIndex uniformArray (x, y)) = unat (of_nat k :: u32)" by simp
  also have "\<dots> = k" using c by (simp add: unat_of_nat)
  finally show ?thesis by (simp only: k_def)
qed

lemma wrapIndex_less: "wrapIndex a b < GRID_SIZE * GRID_SIZE"
proof -
  have "nat (b mod 512) * 512 + nat (a mod 512) < 512 * 512"
    by (rule row_major_less) simp_all
  then show ?thesis by (simp add: wrapIndex_def GRID_SIZE_def)
qed

lemma cellIndex_wrap: "unat (cellIndex uniformArray (x, y)) = wrapIndex (uint x) (uint y)"
  unfolding unat_cellIndex wrapIndex_def GRID_SIZE_def unat_mod_512 by simp

lemma wrapIndex_cong:
  "a mod 512 = a' mod 512 \<Longrightarrow> b mod 512 = b' mod 512 \<Longrightarrow> wrapIndex a b = wrapIndex a' b'"
  by (simp add: wrapIndex_def GRID_SIZE_def)

lemma wrapIndex_uint:
  "wrapIndex (uint (x + 1 :: u32)) b = wrapIndex (uint x + 1) b"
  "wrapIndex (uint (x - 1 :: u32)) b = wrapIndex (uint x - 1) b"
  "wrapIndex a (uint (y + 1 :: u32)) = wrapIndex a (uint y + 1)"
  "wrapIndex a (uint (y - 1 :: u32)) = wrapIndex a (uint y - 1)"
  by (rule wrapIndex_cong; simp only: uint_succ_mod uint_pred_mod)+

lemma cellColor_wrap:
  assumes "binding0 bg = uniformArray" "length (mem (binding1 bg)) = GRID_SIZE * GRID_SIZE"
  shows "cellColor bg mem x y = Some (mem (binding1 bg) ! unat (cellIndex uniformArray (x, y)))"
  using assms wrapIndex_less [of "uint x" "uint y"]
  by (simp add: cellColor_def load_def cellIndex_wrap)

lemma neighbourColors_wrap:
  assumes "binding0 bg = uniformArray" "length (mem (binding1 bg)) = GRID_SIZE * GRID_SIZE"
  shows "neighbourColors bg mem (x, y, z) = Some (neighbours (mem (binding1 bg)) (uint x) (uint y))"
  by (simp add: neighbourColors_def cellColor_wrap [of bg mem, OF assms] cellIndex_wrap wrapIndex_uint
      neighbours_def neighbourOffsets_def)

text \<open>
  The reduction is toroidal because 512 divides \<open>2 ^ 32\<close>. With a grid uniform of
  \<open>(3, 3)\<close> the same shader code reads the left neighbour of cell \<open>(0, 0)\<close> at index
  0, the cell itself, since \<open>2 ^ 32 - 1\<close> is a multiple of 3.
\<close>

lemma cellIndex_grid_3: "cellIndex (3, 3) (0 - 1, 0) = 0"
  by (simp add: cellIndex_def umod_def u32_of_f32_def)

section \<open>The loops of the simulation shader\<close>

lemma upt_8_step: "i < 8 \<Longrightarrow> [i..<8] = i # [i + 1..<8]"
  by (simp add: upt_conv_Cons)

lemma averageColor_loop_sum:
  "averageColor_loop colors i (r, g, b) =
     (r + sum_list (map (\<lambda>j. colors ! j AND 255) [i..<8]),
      g + sum_list (map (\<lambda>j. colors ! j AND push_bit 8 255) [i..<8]),
      b + sum_list (map (\<lambda>j. colors ! j AND push_bit 16 255) [i..<8]))"
proof (induction colors i "(r, g, b)" arbitrary: r g b rule: averageColor_loop.induct)
  case (1 colors i r g b)
  show ?case
  proof (cases "i < 8")
    case True
    then show ?thesis
      using "1" [OF True] 
      by (subst averageColor_loop.simps) (simp add: upt_8_step [OF True] add.assoc)
  next
    case False
    then show ?thesis by (subst averageColor_loop.simps) simp
  qed
qed

lemma countNonZero_loop_sum:
  "countNonZero_loop colors i cnt =
     cnt + sum_list (map (\<lambda>j. if colors ! j \<noteq> 0 then 1 else 0) [i..<8])"
proof (induction colors i cnt rule: countNonZero_loop.induct)
  case (1 colors i cnt)
  show ?case
  proof (cases "i < 8")
    case True
    then show ?thesis
      using "1" [OF True] 
      by (subst countNonZero_loop.simps) (simp add: upt_8_step [OF True] add.assoc)
  next
    case False
    then show ?thesis by (subst countNonZero_loop.simps) simp
  qed
qed

lemma map_nth_8: "length colors = 8 \<Longrightarrow> map (\<lambda>j. f (colors ! j)) [0..<8] = map f colors"
proof -
  assume l: "length colors = 8"
  have "map (\<lambda>j. f (colors ! j)) [0..<length colors] = map f (map ((!) colors) [0..<length colors])"
    by simp
  also have "\<dots> = map f colors" by (simp only: map_nth)
  finally show ?thesis using l by simp
qed

lemma averageColor_sums:
  assumes "length colors = 8"
  shows "averageColor colors =
     (((sum_list (map (\<lambda>c. c AND 255) colors) + 2) div 3) AND 255)
      + (((sum_list (map (\<lambda>c. c AND push_bit 8 255) colors) + push_bit 8 2) div 3) AND push_bit 8 255)
      + (((sum_list (map (\<lambda>c. c AND push_bit 16 255) colors) + push_bit 16 2) div 3) AND push_bit 16 255)"
  by (simp only: averageColor_def averageColor_loop_sum prod.case add_0
        map_nth_8 [OF assms, of "\<lambda>c. c AND 255"]
        map_nth_8 [OF assms, of "\<lambda>c. c AND push_bit 8 255"]
        map_nth_8 [OF assms, of "\<lambda>c. c AND push_bit 16 255"])

lemma countNonZero_sum:
  assumes "length colors = 8"
  shows "countNonZero colors = sum_list (map (\<lambda>c. if c \<noteq> 0 then 1 else 0) colors)"
  by (simp only: countNonZero_def countNonZero_loop_sum add_0
        map_nth_8 [OF assms, of "\<lambda>c. if c \<noteq> 0 then 1 else 0"])

section \<open>The colour average on naturals\<close>

lemma unat_and_le: "unat (c AND m :: u32) \<le> unat m"
  by (rule word_and_le1 [THEN word_le_nat_alt [THEN iffD1]])

lemma unat_sum_list_bounded:
  fixes f :: "u32 \<Rightarrow> u32"
  assumes "\<And>c. unat (f c) \<le> M" and "length cs * M < 2 ^ 32"
  shows "unat (sum_list (map f cs)) = sum_list (map (\<lambda>c. unat (f c)) cs)
         \<and> sum_list (map (\<lambda>c. unat (f c)) cs) \<le> length cs * M"
  using assms(2)
proof (induction cs)
  case Nil
  then show ?case by simp
next
  case (Cons c cs)
  then have len: "length cs * M < 2 ^ 32" by simp
  note ih = Cons.IH [OF len]
  have "unat (f c) + sum_list (map (\<lambda>c. unat (f c)) cs) \<le> M + length cs * M"
    using assms(1) [of c] ih by linarith
  moreover have "M + length cs * M < 2 ^ 32" using Cons.prems by simp
  ultimately show ?case using ih by (simp add: unat_add_lem [THEN iffD1])
qed

lemma unat_masked_sum:
  fixes m :: u32
  assumes "length cs = 8" and "8 * unat m < 2 ^ 32"
  shows "unat (sum_list (map (\<lambda>c. c AND m) cs)) = sum_list (map (\<lambda>c. c AND unat m) (map unat cs))"
    and "sum_list (map (\<lambda>c. c AND unat m) (map unat cs)) \<le> 8 * unat m"
proof -
  have "length cs * unat m < 2 ^ 32" using assms by simp
  from unat_sum_list_bounded [of "\<lambda>c. c AND m" "unat m" cs, OF unat_and_le this]
  show "unat (sum_list (map (\<lambda>c. c AND m) cs)) = sum_list (map (\<lambda>c. c AND unat m) (map unat cs))"
    and "sum_list (map (\<lambda>c. c AND unat m) (map unat cs)) \<le> 8 * unat m"
    using assms(1) by (simp_all add: unsigned_and_eq comp_def)
qed

lemma unat_biased_third:
  fixes s k m :: u32
  assumes "unat s + unat k < 2 ^ 32"
  shows "unat (((s + k) div 3) AND m) = ((unat s + unat k) div 3) AND unat m"
proof -
  have "unat (s + k) = unat s + unat k" using assms by (simp add: unat_add_lem [THEN iffD1])
  then show ?thesis by (simp add: unsigned_and_eq unat_div)
qed

lemma averageColor_refines:
  assumes len: "length colors = 8"
  shows "unat (averageColor colors) = averageColor_spec (map unat colors)"
proof -
  let ?r = "sum_list (map (\<lambda>c. c AND 255) colors)"
  let ?g = "sum_list (map (\<lambda>c. c AND push_bit 8 255) colors)"
  let ?b = "sum_list (map (\<lambda>c. c AND push_bit 16 255) colors)"
  let ?R = "sum_list (map (\<lambda>c. c AND 255) (map unat colors))"
  let ?G = "sum_list (map (\<lambda>c. c AND push_bit 8 255) (map unat colors))"
  let ?B = "sum_list (map (\<lambda>c. c AND push_bit 16 255) (map unat colors))"
  have r: "unat ?r = ?R" "?R \<le> 2040"
    using unat_masked_sum [OF len, of 255] by simp_all
  have g: "unat ?g = ?G" "?G \<le> 522240"
    using unat_masked_sum [OF len, of "push_bit 8 255"] by simp_all
  have b: "unat ?b = ?B" "?B \<le> 133693440"
    using unat_masked_sum [OF len, of "push_bit 16 255"] by simp_all
  have pr: "unat (((?r + 2) div 3) AND 255) = ((?R + 2) div 3) AND 255"
    using unat_biased_third [of ?r 2 255] r by simp
  have pg: "unat (((?g + push_bit 8 2) div 3) AND push_bit 8 255)
            = ((?G + push_bit 8 2) div 3) AND push_bit 8 255"
    using unat_biased_third [of ?g "push_bit 8 2" "push_bit 8 255"] g by simp
  have pb: "unat (((?b + push_bit 16 2) div 3) AND push_bit 16 255)
            = ((?B + push_bit 16 2) div 3) AND push_bit 16 255"
    using unat_biased_third [of ?b "push_bit 16 2" "push_bit 16 255"] b by simp
  have br: "unat (((?r + 2) div 3) AND 255) \<le> 255"
    using unat_and_le [of "(?r + 2) div 3" 255] by simp
  have bg: "unat (((?g + push_bit 8 2) div 3) AND push_bit 8 255) \<le> 65280"
    using unat_and_le [of "(?g + push_bit 8 2) div 3" "push_bit 8 255"] by simp
  have bb: "unat (((?b + push_bit 16 2) div 3) AND push_bit 16 255) \<le> 16711680"
    using unat_and_le [of "(?b + push_bit 16 2) div 3" "push_bit 16 255"] by simp
  have "unat (averageColor colors)
        = unat (((?r + 2) div 3) AND 255)
          + unat (((?g + push_bit 8 2) div 3) AND push_bit 8 255)
          + unat (((?b + push_bit 16 2) div 3) AND push_bit 16 255)"
    unfolding averageColor_sums [OF len]
    using br bg bb by (simp add: unat_add_lem [THEN iffD1])
  then show ?thesis
    unfolding averageColor_spec_def Let_def pr pg pb by simp
qed

lemma nat_and_255: "(n::nat) AND 255 = n mod 256"
proof -
  have "n AND mask 8 = n mod 2 ^ 8"
    by (simp only: take_bit_eq_mask [symmetric] take_bit_eq_mod)
  moreover have "mask 8 = (255::nat)" by (simp add: mask_eq_exp_minus_1)
  ultimately show ?thesis by simp
qed

lemma nat_and_shifted: "(n::nat) AND push_bit k m = push_bit k (drop_bit k n AND m)"
  by (rule bit_eqI) (auto simp add: bit_simps)

lemma nat_and_green: "(n::nat) AND push_bit 8 255 = 256 * (n div 256 mod 256)"
  by (simp only: nat_and_shifted nat_and_255) (simp add: push_bit_eq_mult drop_bit_eq_div)

lemma nat_and_blue: "(n::nat) AND push_bit 16 255 = 65536 * (n div 65536 mod 256)"
  by (simp only: nat_and_shifted nat_and_255) (simp add: push_bit_eq_mult drop_bit_eq_div)

lemma sum_list_scaled: "sum_list (map (\<lambda>c. (k::nat) * f c) cs) = k * sum_list (map f cs)"
  by (induction cs) (simp_all add: distrib_left)

lemma scaled_third: "0 < k \<Longrightarrow> (k * a) div 3 div k = a div (3::nat)"
proof -
  assume k: "0 < k"
  have "(k * a) div 3 div k = (k * a) div (3 * k)" by (simp only: div_mult2_eq)
  also have "\<dots> = (k * a) div (k * 3)" by (simp only: mult.commute)
  also have "\<dots> = a div 3" using k by simp
  finally show ?thesis .
qed

lemma channel_0: "channel 0 = (\<lambda>c. unat c mod 256)"
  and channel_1: "channel 1 = (\<lambda>c. unat c div 256 mod 256)"
  and channel_2: "channel 2 = (\<lambda>c. unat c div 65536 mod 256)"
  by (simp_all add: fun_eq_iff channel_def)

lemma averageColor_spec_channels:
  "averageColor_spec (map unat cs) =
     ((sum_list (map (channel 0) cs) + 2) div 3) mod 256
     + 256 * (((sum_list (map (channel 1) cs) + 2) div 3) mod 256)
     + 65536 * (((sum_list (map (channel 2) cs) + 2) div 3) mod 256)"
proof -
  have r: "sum_list (map (\<lambda>c. c AND 255) (map unat cs)) = sum_list (map (channel 0) cs)"
    by (simp add: comp_def nat_and_255 channel_0)
  have g: "sum_list (map (\<lambda>c. c AND push_bit 8 255) (map unat cs)) = 256 * sum_list (map (channel 1) cs)"
    by (simp only: map_map comp_def nat_and_green sum_list_scaled channel_1)
  have b: "sum_list (map (\<lambda>c. c AND push_bit 16 255) (map unat cs)) = 65536 * sum_list (map (channel 2) cs)"
    by (simp only: map_map comp_def nat_and_blue sum_list_scaled channel_2)
  have g2: "(256 * G + push_bit 8 2) div 3 div 256 = (G + 2) div 3" for G :: nat
    using scaled_third [of 256 "G + 2"] by (simp add: push_bit_eq_mult)
  have b2: "(65536 * B + push_bit 16 2) div 3 div 65536 = (B + 2) div 3" for B :: nat
    using scaled_third [of 65536 "B + 2"] by (simp add: push_bit_eq_mult)
  show ?thesis
    unfolding averageColor_spec_def Let_def r g b
    by (simp only: nat_and_255 nat_and_green nat_and_blue g2 b2)
qed

lemma mod_lin: "r < k \<Longrightarrow> (r + k * q) mod k = (r::nat)"
  by simp

lemma div_lin: "r < k \<Longrightarrow> (r + k * q) div k = (q::nat)"
  by simp

lemma channels_of_packed:
  assumes "r < 256" "g < 256" "b < 256" "unat c = r + 256 * g + 65536 * b"
  shows "channel 0 c = r" "channel 1 c = g" "channel 2 c = b" "channel 3 c = 0"
proof -
  have e1: "unat c = r + 256 * (g + 256 * b)" using assms(4) by simp
  have e2: "unat c = (r + 256 * g) + 65536 * b" using assms(4) by simp
  have m0: "unat c mod 256 = r" unfolding e1 using assms(1) by (rule mod_lin)
  have d1: "unat c div 256 = g + 256 * b" unfolding e1 using assms(1) by (rule div_lin)
  have m1: "(g + 256 * b) mod 256 = g" using assms(2) by (rule mod_lin)
  have "r + 256 * g < 65536" using assms(1,2) by simp
  then have d2: "unat c div 65536 = b" unfolding e2 by (rule div_lin)
  have lt: "unat c < 16777216" using assms by simp
  show "channel 0 c = r" unfolding channel_def using m0 by simp
  show "channel 1 c = g" unfolding channel_def using d1 m1 by simp
  show "channel 2 c = b" unfolding channel_def using d2 assms(3) by simp
  show "channel 3 c = 0" unfolding channel_def using lt by simp
qed

section \<open>One compute pass\<close>

lemma computeMain_step:
  assumes "binding0 bg = uniformArray"
    and "length (mem (binding1 bg)) = GRID_SIZE * GRID_SIZE"
    and "length (mem (binding2 bg)) = GRID_SIZE * GRID_SIZE"
  shows "computeMain bg mem (x, y, z) =
           Some (mem(binding2 bg := (mem (binding2 bg))
                   [wrapIndex (uint x) (uint y) := nextCell (mem (binding1 bg)) (uint x) (uint y)]))"
  using assms wrapIndex_less [of "uint x" "uint y"]
  by (simp add: computeMain_def neighbourColors_wrap [of bg mem] Let_def writeOut_def
      store_def load_def cellIndex_wrap nextCell_def)

lemma wrapIndex_mod: "wrapIndex a b mod GRID_SIZE = nat (a mod int GRID_SIZE)"
  and wrapIndex_div: "wrapIndex a b div GRID_SIZE = nat (b mod int GRID_SIZE)"
proof -
  have lt: "nat (a mod 512) < 512" by simp
  have e: "wrapIndex a b = nat (a mod 512) + 512 * nat (b mod 512)"
    by (simp add: wrapIndex_def GRID_SIZE_def)
  show "wrapIndex a b mod GRID_SIZE = nat (a mod int GRID_SIZE)"
    unfolding e using mod_lin [OF lt] by (simp add: GRID_SIZE_def)
  show "wrapIndex a b div GRID_SIZE = nat (b mod int GRID_SIZE)"
    unfolding e using div_lin [OF lt] by (simp add: GRID_SIZE_def)
qed

lemma neighbours_cong:
  assumes "x mod 512 = x' mod 512" "y mod 512 = y' mod 512"
  shows "neighbours buf x y = neighbours buf x' y'"
proof -
  have "wrapIndex (x + dx) (y + dy) = wrapIndex (x' + dx) (y' + dy)" for dx dy
    using assms by (intro wrapIndex_cong mod_add_cong) simp_all
  then show ?thesis by (simp add: neighbours_def)
qed

lemma nextCell_cong:
  assumes "x mod 512 = x' mod 512" "y mod 512 = y' mod 512"
  shows "nextCell buf x y = nextCell buf x' y'"
  by (simp only: nextCell_def neighbours_cong [OF assms] wrapIndex_cong [OF assms])

lemma nextCell_nextAt: "nextCell buf a b = nextAt buf (wrapIndex a b)"
  unfolding nextAt_def wrapIndex_mod wrapIndex_div
  by (rule nextCell_cong) (simp_all add: GRID_SIZE_def)

lemma run_invocations_eq:
  assumes b0: "binding0 bg = uniformArray"
    and ne: "binding1 bg \<noteq> binding2 bg"
    and l1: "length (mem (binding1 bg)) = GRID_SIZE * GRID_SIZE"
    and l2: "length (mem (binding2 bg)) = GRID_SIZE * GRID_SIZE"
  shows "run_invocations bg mem cells =
           Some (mem(binding2 bg :=
             map (\<lambda>j. if j \<in> writtenIndex ` set cells
                      then nextAt (mem (binding1 bg)) j
                      else mem (binding2 bg) ! j)
                 [0..<GRID_SIZE * GRID_SIZE]))"
  using l1 l2
proof (induction cells arbitrary: mem)
  case Nil
  have "map (\<lambda>j. mem (binding2 bg) ! j) [0..<length (mem (binding2 bg))] = mem (binding2 bg)"
    by (rule map_nth)
  then show ?case using Nil.prems by simp
next
  case (Cons c cells)
  obtain x y z where c: "c = (x, y, z)" by (cases c) auto
  let ?i = "wrapIndex (uint x) (uint y)"
  let ?v = "nextAt (mem (binding1 bg)) ?i"
  let ?mem1 = "mem(binding2 bg := (mem (binding2 bg))[?i := ?v])"
  have step: "computeMain bg mem c = Some ?mem1"
    unfolding c using computeMain_step [OF b0 Cons.prems] by (simp add: nextCell_nextAt)
  have m1: "?mem1 (binding1 bg) = mem (binding1 bg)" using ne by simp
  have m2: "?mem1 (binding2 bg) = (mem (binding2 bg))[?i := ?v]" by simp
  have l1': "length (?mem1 (binding1 bg)) = GRID_SIZE * GRID_SIZE"
    using Cons.prems ne by simp
  have l2': "length (?mem1 (binding2 bg)) = GRID_SIZE * GRID_SIZE"
    using Cons.prems by simp
  have wi: "writtenIndex c = ?i" by (simp add: writtenIndex_def c cellIndex_wrap)
  let ?A = "map (\<lambda>j. if j \<in> writtenIndex ` set cells then nextAt (?mem1 (binding1 bg)) j
                  else ?mem1 (binding2 bg) ! j) [0..<GRID_SIZE * GRID_SIZE]"
  let ?B = "map (\<lambda>j. if j \<in> writtenIndex ` set (c # cells) then nextAt (mem (binding1 bg)) j
                  else mem (binding2 bg) ! j) [0..<GRID_SIZE * GRID_SIZE]"
  have AB: "?A = ?B"
    unfolding m1 m2 using Cons.prems(2) by (auto simp add: wi nth_list_update)
  have upd: "?mem1(binding2 bg := M) = mem(binding2 bg := M)" for M by (rule fun_upd_upd)
  have "run_invocations bg mem (c # cells) = run_invocations bg ?mem1 cells"
    using step by simp
  also have "\<dots> = Some (?mem1(binding2 bg := ?A))" by (rule Cons.IH [OF l1' l2'])
  also have "\<dots> = Some (mem(binding2 bg := ?B))" by (simp only: AB upd)
  finally show ?case .
qed

text \<open>
  The order in which the invocations run does not matter: two schedules that start the
  same invocations leave the same memory.
\<close>

lemma run_invocations_schedule:
  assumes "binding0 bg = uniformArray"
    and "binding1 bg \<noteq> binding2 bg"
    and "length (mem (binding1 bg)) = GRID_SIZE * GRID_SIZE"
    and "length (mem (binding2 bg)) = GRID_SIZE * GRID_SIZE"
    and "set cells = set cells'"
  shows "run_invocations bg mem cells = run_invocations bg mem cells'"
  unfolding run_invocations_eq [OF assms(1-4)] assms(5) by (rule refl)

lemma uint_of_nat_small: "n < 512 \<Longrightarrow> uint (of_nat n :: u32) = int n"
proof -
  assume "n < 512"
  then have "n < 2 ^ 32" by simp
  then have "unat (of_nat n :: u32) = n" by (simp add: unat_of_nat)
  then show ?thesis by (metis uint_nat)
qed

lemma wrapIndex_small: "x < 512 \<Longrightarrow> y < 512 \<Longrightarrow> wrapIndex (int x) (int y) = y * GRID_SIZE + x"
  by (simp add: wrapIndex_def GRID_SIZE_def)

lemma writtenIndex_small:
  "x < 512 \<Longrightarrow> y < 512 \<Longrightarrow> writtenIndex (of_nat x, of_nat y, z) = y * GRID_SIZE + x"
  by (simp add: writtenIndex_def cellIndex_wrap uint_of_nat_small wrapIndex_small)

lemma set_global_invocation_ids:
  "set (global_invocation_ids workgroupCount) =
     {(of_nat x, of_nat y, 0) | x y. x < 512 \<and> y < 512}"
  by (auto simp add: global_invocation_ids_def workgroupCount_eq WORKGROUP_SIZE_def) blast

lemma writtenIndex_image:
  "writtenIndex ` set (global_invocation_ids workgroupCount) = {0..<GRID_SIZE * GRID_SIZE}"
proof (rule set_eqI, rule iffI)
  fix j
  assume "j \<in> writtenIndex ` set (global_invocation_ids workgroupCount)"
  then obtain x y where xy: "x < 512" "y < 512" and j: "j = writtenIndex (of_nat x, of_nat y, 0)"
    unfolding set_global_invocation_ids by auto
  have "y * 512 + x < 512 * 512" using xy by (intro row_major_less)
  then show "j \<in> {0..<GRID_SIZE * GRID_SIZE}"
    using xy j by (simp add: writtenIndex_small GRID_SIZE_def)
next
  fix j
  assume "j \<in> {0..<GRID_SIZE * GRID_SIZE}"
  then have lt: "j < 512 * 512" by (simp add: GRID_SIZE_def)
  have x: "j mod 512 < 512" by simp
  have y: "j div 512 < 512" using lt by (simp add: less_mult_imp_div_less)
  have "writtenIndex (of_nat (j mod 512), of_nat (j div 512), 0) = j"
    using writtenIndex_small [OF x y] by (simp add: GRID_SIZE_def)
  moreover have "(of_nat (j mod 512), of_nat (j div 512), 0) \<in> set (global_invocation_ids workgroupCount)"
    unfolding set_global_invocation_ids using x y by blast
  ultimately show "j \<in> writtenIndex ` set (global_invocation_ids workgroupCount)"
    by (metis imageI)
qed

lemma bindGroups_cases:
  assumes "bg \<in> set bindGroups"
  shows "binding0 bg = uniformArray"
    and "binding1 bg \<noteq> binding2 bg"
    and "binding1 bg = 0 \<and> binding2 bg = 1 \<or> binding1 bg = 1 \<and> binding2 bg = 0"
  using assms by (auto simp add: bindGroups_def)

lemma computePass_eq:
  assumes bg: "bg \<in> set bindGroups"
    and l0: "length (mem 0) = GRID_SIZE * GRID_SIZE"
    and l1: "length (mem 1) = GRID_SIZE * GRID_SIZE"
  shows "computePass bg mem =
           Some (mem(binding2 bg := map (nextAt (mem (binding1 bg))) [0..<GRID_SIZE * GRID_SIZE]))"
proof -
  have lens: "length (mem (binding1 bg)) = GRID_SIZE * GRID_SIZE"
             "length (mem (binding2 bg)) = GRID_SIZE * GRID_SIZE"
    using bindGroups_cases(3) [OF bg] l0 l1 by auto
  have m: "map (\<lambda>j. if j \<in> {0..<GRID_SIZE * GRID_SIZE} then nextAt (mem (binding1 bg)) j
                  else mem (binding2 bg) ! j) [0..<GRID_SIZE * GRID_SIZE]
        = map (nextAt (mem (binding1 bg))) [0..<GRID_SIZE * GRID_SIZE]"
    by (rule map_cong) simp_all
  show ?thesis
    unfolding computePass_def
      run_invocations_eq [OF bindGroups_cases(1,2) [OF bg] lens] writtenIndex_image
    by (simp only: m)
qed

lemma uint_of_nat_grid: "n < GRID_SIZE \<Longrightarrow> uint (of_nat n :: u32) = int n"
  by (simp add: GRID_SIZE_def uint_of_nat_small)

lemma wrapIndex_grid:
  "x < GRID_SIZE \<Longrightarrow> y < GRID_SIZE \<Longrightarrow> wrapIndex (int x) (int y) = y * GRID_SIZE + x"
  by (simp add: GRID_SIZE_def wrapIndex_small [unfolded GRID_SIZE_def])

lemma cell_index_less:
  "x < GRID_SIZE \<Longrightarrow> y < GRID_SIZE \<Longrightarrow> y * GRID_SIZE + x < GRID_SIZE * GRID_SIZE"
  by (rule row_major_less)

lemma bindGroups_lengths:
  assumes "bg \<in> set bindGroups"
    and "length (mem 0) = GRID_SIZE * GRID_SIZE"
    and "length (mem 1) = GRID_SIZE * GRID_SIZE"
  shows "length (mem (binding1 bg)) = GRID_SIZE * GRID_SIZE"
    and "length (mem (binding2 bg)) = GRID_SIZE * GRID_SIZE"
  using bindGroups_cases(3) [OF assms(1)] assms(2,3) by auto

lemma neighbourColors_cell:
  assumes "bg \<in> set bindGroups"
    and "length (mem 0) = GRID_SIZE * GRID_SIZE"
    and "length (mem 1) = GRID_SIZE * GRID_SIZE"
    and "x < GRID_SIZE" and "y < GRID_SIZE"
  shows "neighbourColors bg mem (of_nat x, of_nat y, z) =
           Some (neighbours (mem (binding1 bg)) (int x) (int y))"
  using neighbourColors_wrap [of bg mem "of_nat x" "of_nat y" z,
      OF bindGroups_cases(1) [OF assms(1)] bindGroups_lengths(1) [OF assms(1,2,3)]]
  by (simp add: uint_of_nat_grid assms(4,5))

lemma computeMain_cell:
  assumes "bg \<in> set bindGroups"
    and "length (mem 0) = GRID_SIZE * GRID_SIZE"
    and "length (mem 1) = GRID_SIZE * GRID_SIZE"
    and "x < GRID_SIZE" and "y < GRID_SIZE"
  shows "computeMain bg mem (of_nat x, of_nat y, z) =
           Some (mem(binding2 bg := (mem (binding2 bg))
                   [y * GRID_SIZE + x := nextCell (mem (binding1 bg)) (int x) (int y)]))"
  using computeMain_step [of bg mem "of_nat x" "of_nat y" z,
      OF bindGroups_cases(1) [OF assms(1)] bindGroups_lengths [OF assms(1,2,3)]]
  by (simp add: uint_of_nat_grid wrapIndex_grid assms(4,5))

lemma computePass_cell:
  assumes "bg \<in> set bindGroups"
    and "length (mem 0) = GRID_SIZE * GRID_SIZE"
    and "length (mem 1) = GRID_SIZE * GRID_SIZE"
    and "x < GRID_SIZE" and "y < GRID_SIZE"
  shows "\<exists>mem'. computePass bg mem = Some mem'
           \<and> mem' (binding2 bg) ! (y * GRID_SIZE + x) = nextCell (mem (binding1 bg)) (int x) (int y)"
proof -
  have lt: "y * GRID_SIZE + x < GRID_SIZE * GRID_SIZE" using assms(4,5) by (rule cell_index_less)
  have "nextAt (mem (binding1 bg)) (y * GRID_SIZE + x) = nextCell (mem (binding1 bg)) (int x) (int y)"
    using nextCell_nextAt [of "mem (binding1 bg)" "int x" "int y"] assms(4,5)
    by (simp add: wrapIndex_grid)
  then show ?thesis
    unfolding computePass_eq [OF assms(1,2,3)] using lt by simp
qed

section \<open>The rule, cell by cell\<close>

text \<open>
  Claim C3 (survival). For every cell \<open>(x, y)\<close> of the grid whose eight neighbours hold
  exactly two non-zero values, the invocation of \<open>computeMain\<close> for that cell stores
  the cell's own value from the read buffer, unchanged, at the cell's index of the
  write buffer, whatever that value is; and after the whole compute pass the write
  buffer holds that value there.
\<close>

theorem survival_keeps_own_value:
  assumes "bg \<in> set bindGroups"
    and "length (mem 0) = GRID_SIZE * GRID_SIZE"
    and "length (mem 1) = GRID_SIZE * GRID_SIZE"
    and "x < GRID_SIZE" and "y < GRID_SIZE"
    and "neighbourColors bg mem (of_nat x, of_nat y, 0) = Some colors"
    and "countNonZero colors = 2"
  shows "computeMain bg mem (of_nat x, of_nat y, 0) =
           Some (mem(binding2 bg := (mem (binding2 bg))
                   [y * GRID_SIZE + x := mem (binding1 bg) ! (y * GRID_SIZE + x)]))
         \<and> (\<exists>mem'. computePass bg mem = Some mem'
               \<and> mem' (binding2 bg) ! (y * GRID_SIZE + x) = mem (binding1 bg) ! (y * GRID_SIZE + x))"
proof -
  have nb: "neighbours (mem (binding1 bg)) (int x) (int y) = colors"
    using neighbourColors_cell [OF assms(1-5), of 0] assms(6) by simp
  have nc: "nextCell (mem (binding1 bg)) (int x) (int y) = mem (binding1 bg) ! (y * GRID_SIZE + x)"
    by (simp add: nextCell_def nb assms(7) wrapIndex_grid [OF assms(4,5)])
  show ?thesis
    using computeMain_cell [OF assms(1-5), of 0] computePass_cell [OF assms(1-5)]
    by (simp only: nc)
qed

theorem survival_keeps_own_value_witness:
  "neighbourColors \<lparr>binding0 = uniformArray, binding1 = 0, binding2 = 1\<rparr>
       ((\<lambda>k. replicate 262144 0)(0 := (replicate 262144 0)[0 := 7, 1 := 255, 512 := 65280]))
       (of_nat 0, of_nat 0, 0) = Some [0, 255, 0, 0, 0, 0, 0, 65280]
   \<and> countNonZero [0, 255, 0, 0, 0, 0, 0, 65280] = 2
   \<and> (\<exists>mem'. computePass \<lparr>binding0 = uniformArray, binding1 = 0, binding2 = 1\<rparr>
                 ((\<lambda>k. replicate 262144 0)(0 := (replicate 262144 0)[0 := 7, 1 := 255, 512 := 65280]))
               = Some mem'
             \<and> mem' 1 ! 0 = 7)"
proof -
  let ?bg = "\<lparr>binding0 = uniformArray, binding1 = 0, binding2 = 1\<rparr>"
  let ?mem = "(\<lambda>k. replicate 262144 0)(0 := (replicate 262144 0)[0 := 7, 1 := 255, 512 := 65280])
                :: memory"
  have h1: "?bg \<in> set bindGroups" by (simp add: bindGroups_def)
  have h2: "length (?mem 0) = GRID_SIZE * GRID_SIZE" by (simp add: GRID_SIZE_def)
  have h3: "length (?mem 1) = GRID_SIZE * GRID_SIZE" by (simp add: GRID_SIZE_def)
  have h4: "(0::nat) < GRID_SIZE" by (simp add: GRID_SIZE_def)
  have h5: "neighbourColors ?bg ?mem (of_nat 0, of_nat 0, 0) = Some [0, 255, 0, 0, 0, 0, 0, 65280]"
    by (simp add: neighbourColors_def cellColor_def load_def cellIndex_def umod_def uniformArray_def
        u32_of_f32_GRID)
  have h6: "countNonZero [0, 255, 0, 0, 0, 0, 0, 65280] = 2"
    by (simp add: countNonZero_def countNonZero_loop.simps)
  from survival_keeps_own_value [OF h1 h2 h3 h4 h4 h5 h6] h5 h6
  show ?thesis by (simp add: GRID_SIZE_def)
qed

lemma count_word_filter:
  "sum_list (map (\<lambda>c. if c \<noteq> 0 then 1 else 0) cs) = (of_nat (length (filter (\<lambda>c. c \<noteq> 0) cs)) :: u32)"
  by (induction cs) simp_all

lemma unat_countNonZero:
  assumes "length colors = 8"
  shows "unat (countNonZero colors) = length (filter (\<lambda>c. c \<noteq> 0) colors)"
proof -
  have "length (filter (\<lambda>c. c \<noteq> 0) colors) \<le> 8"
    using length_filter_le [of "\<lambda>c. c \<noteq> 0" colors] assms by simp
  then have "length (filter (\<lambda>c. c \<noteq> 0) colors) < 2 ^ 32" by simp
  then show ?thesis
    unfolding countNonZero_sum [OF assms] count_word_filter by (simp add: unat_of_nat)
qed

lemma length_neighbours: "length (neighbours buf x y) = 8"
  by (simp add: neighbours_def neighbourOffsets_def)

text \<open>
  Claim C4 (death or no birth). For every cell \<open>(x, y)\<close> of the grid whose eight
  neighbours hold a number of non-zero values other than 2 and 3, that is 0, 1, 4, 5,
  6, 7 or 8, the invocation of \<open>computeMain\<close> stores 0 at the cell's index of the write
  buffer, whatever the cell's own value is; and after the whole compute pass the write
  buffer holds 0 there.
\<close>

theorem other_counts_write_zero:
  assumes "bg \<in> set bindGroups"
    and "length (mem 0) = GRID_SIZE * GRID_SIZE"
    and "length (mem 1) = GRID_SIZE * GRID_SIZE"
    and "x < GRID_SIZE" and "y < GRID_SIZE"
    and "neighbourColors bg mem (of_nat x, of_nat y, 0) = Some colors"
    and "countNonZero colors \<noteq> 2" and "countNonZero colors \<noteq> 3"
  shows "unat (countNonZero colors) \<in> {0, 1, 4, 5, 6, 7, 8}
         \<and> computeMain bg mem (of_nat x, of_nat y, 0) =
             Some (mem(binding2 bg := (mem (binding2 bg))[y * GRID_SIZE + x := 0]))
         \<and> (\<exists>mem'. computePass bg mem = Some mem'
               \<and> mem' (binding2 bg) ! (y * GRID_SIZE + x) = 0)"
proof -
  have nb: "neighbours (mem (binding1 bg)) (int x) (int y) = colors"
    using neighbourColors_cell [OF assms(1-5), of 0] assms(6) by simp
  have len: "length colors = 8" using length_neighbours nb by blast
  have "unat (countNonZero colors) \<le> 8"
    using unat_countNonZero [OF len] length_filter_le [of "\<lambda>c. c \<noteq> 0" colors] len by simp
  moreover have "unat (countNonZero colors) \<noteq> 2"
  proof
    assume "unat (countNonZero colors) = 2"
    then have "of_nat (unat (countNonZero colors)) = (of_nat 2 :: u32)" by simp
    then show False using assms(7) by simp
  qed
  moreover have "unat (countNonZero colors) \<noteq> 3"
  proof
    assume "unat (countNonZero colors) = 3"
    then have "of_nat (unat (countNonZero colors)) = (of_nat 3 :: u32)" by simp
    then show False using assms(8) by simp
  qed
  ultimately have cnt: "unat (countNonZero colors) \<in> {0, 1, 4, 5, 6, 7, 8}" by auto
  have nc: "nextCell (mem (binding1 bg)) (int x) (int y) = 0"
    by (simp add: nextCell_def nb assms(7,8))
  show ?thesis
    using cnt computeMain_cell [OF assms(1-5), of 0] computePass_cell [OF assms(1-5)]
    by (simp only: nc)
qed


theorem other_counts_write_zero_witness:
  "neighbourColors \<lparr>binding0 = uniformArray, binding1 = 0, binding2 = 1\<rparr>
       ((\<lambda>k. replicate 262144 9)(0 := (replicate 262144 0)[0 := 7]))
       (of_nat 0, of_nat 0, 0) = Some [0, 0, 0, 0, 0, 0, 0, 0]
   \<and> countNonZero [0, 0, 0, 0, 0, 0, 0, 0] = 0
   \<and> (\<exists>mem'. computePass \<lparr>binding0 = uniformArray, binding1 = 0, binding2 = 1\<rparr>
                 ((\<lambda>k. replicate 262144 9)(0 := (replicate 262144 0)[0 := 7]))
               = Some mem'
             \<and> mem' 1 ! 0 = 0)"
proof -
  let ?bg = "\<lparr>binding0 = uniformArray, binding1 = 0, binding2 = 1\<rparr>"
  let ?mem = "(\<lambda>k. replicate 262144 9)(0 := (replicate 262144 0)[0 := 7]) :: memory"
  have h1: "?bg \<in> set bindGroups" by (simp add: bindGroups_def)
  have h2: "length (?mem 0) = GRID_SIZE * GRID_SIZE" by (simp add: GRID_SIZE_def)
  have h3: "length (?mem 1) = GRID_SIZE * GRID_SIZE" by (simp add: GRID_SIZE_def)
  have h4: "(0::nat) < GRID_SIZE" by (simp add: GRID_SIZE_def)
  have h5: "neighbourColors ?bg ?mem (of_nat 0, of_nat 0, 0) = Some [0, 0, 0, 0, 0, 0, 0, 0]"
    by (simp add: neighbourColors_def cellColor_def load_def cellIndex_def umod_def uniformArray_def
        u32_of_f32_GRID)
  have h6: "countNonZero [0, 0, 0, 0, 0, 0, 0, 0] = 0"
    by (simp add: countNonZero_def countNonZero_loop.simps)
  have h7: "countNonZero [0, 0, 0, 0, 0, 0, 0, 0] \<noteq> 2"
    and h8: "countNonZero [0, 0, 0, 0, 0, 0, 0, 0] \<noteq> 3"
    by (simp_all add: h6)
  from other_counts_write_zero [OF h1 h2 h3 h4 h4 h5 h7 h8] h5 h6
  show ?thesis by (simp add: GRID_SIZE_def)
qed

section \<open>The read buffer\<close>

text \<open>
  Claim C7 (buffer isolation). In each of the two bind groups the buffer read through
  \<open>cellStateIn\<close> (binding 1) and the buffer written through \<open>cellStateOut\<close>
  (binding 2) are distinct; every invocation of \<open>computeMain\<close> and the whole compute
  pass leave the contents of the read buffer as they were, and the pass changes no
  buffer other than the one at binding 2.
\<close>

theorem read_buffer_unchanged:
  assumes "bg \<in> set bindGroups"
    and "length (mem 0) = GRID_SIZE * GRID_SIZE"
    and "length (mem 1) = GRID_SIZE * GRID_SIZE"
  shows "binding1 bg \<noteq> binding2 bg
         \<and> (\<forall>cell. \<exists>mem'. computeMain bg mem cell = Some mem'
                \<and> mem' (binding1 bg) = mem (binding1 bg))
         \<and> (\<exists>mem'. computePass bg mem = Some mem'
               \<and> mem' (binding1 bg) = mem (binding1 bg)
               \<and> (\<forall>k. k \<noteq> binding2 bg \<longrightarrow> mem' k = mem k))"
proof -
  note ne = bindGroups_cases(2) [OF assms(1)]
  have one: "\<exists>mem'. computeMain bg mem cell = Some mem' \<and> mem' (binding1 bg) = mem (binding1 bg)"
    for cell
  proof -
    obtain x y z where c: "cell = (x, y, z)" by (cases cell) auto
    show ?thesis
      unfolding c
        computeMain_step [of bg mem x y z,
          OF bindGroups_cases(1) [OF assms(1)] bindGroups_lengths [OF assms]]
      using ne by simp
  qed
  have pass: "\<exists>mem'. computePass bg mem = Some mem'
               \<and> mem' (binding1 bg) = mem (binding1 bg)
               \<and> (\<forall>k. k \<noteq> binding2 bg \<longrightarrow> mem' k = mem k)"
    unfolding computePass_eq [OF assms] using ne by simp
  show ?thesis using ne one pass by blast
qed

theorem read_buffer_unchanged_witness:
  "\<exists>mem'. computePass \<lparr>binding0 = uniformArray, binding1 = 1, binding2 = 0\<rparr>
             ((\<lambda>k. replicate 262144 0)(1 := (replicate 262144 0)[5 := 255])) = Some mem'
         \<and> mem' 1 = (replicate 262144 0)[5 := 255]"
proof -
  let ?bg = "\<lparr>binding0 = uniformArray, binding1 = 1, binding2 = 0\<rparr>"
  let ?mem = "(\<lambda>k. replicate 262144 0)(1 := (replicate 262144 0)[5 := 255]) :: memory"
  have h1: "?bg \<in> set bindGroups" by (simp add: bindGroups_def)
  have h2: "length (?mem 0) = GRID_SIZE * GRID_SIZE" by (simp add: GRID_SIZE_def)
  have h3: "length (?mem 1) = GRID_SIZE * GRID_SIZE" by (simp add: GRID_SIZE_def)
  from read_buffer_unchanged [OF h1 h2 h3]
  have "\<exists>mem'. computePass ?bg ?mem = Some mem' \<and> mem' (binding1 ?bg) = ?mem (binding1 ?bg)"
    by blast
  then show ?thesis by simp
qed

section \<open>The neighbourhood\<close>

text \<open>
  Claim C2 (toroidal wrap). For \<open>GRID_SIZE = 512\<close> and every invocation \<open>(x, y, z)\<close>,
  at the edges and corners as elsewhere, the eight values \<open>computeMain\<close> gathers are
  those of the read buffer at the coordinates \<open>(x + 1, y + 1)\<close>, \<open>(x + 1, y)\<close>,
  \<open>(x + 1, y - 1)\<close>, \<open>(x, y - 1)\<close>, \<open>(x - 1, y - 1)\<close>, \<open>(x - 1, y)\<close>,
  \<open>(x - 1, y + 1)\<close>, \<open>(x, y + 1)\<close>, each reduced modulo 512 in both axes: the
  wrap-around of \<open>x - 1\<close> in \<open>u32\<close> at \<open>x = 0\<close> does not disturb the reduction. The
  cell \<open>(0, 0)\<close> reads \<open>(511, 511)\<close>, \<open>(511, 0)\<close> and \<open>(0, 511)\<close>.
\<close>

theorem neighbours_wrap_toroidally:
  assumes "bg \<in> set bindGroups"
    and "length (mem 0) = GRID_SIZE * GRID_SIZE"
    and "length (mem 1) = GRID_SIZE * GRID_SIZE"
  shows "neighbourColors bg mem (x, y, z) =
           Some [mem (binding1 bg) ! wrapIndex (uint x + 1) (uint y + 1),
                 mem (binding1 bg) ! wrapIndex (uint x + 1) (uint y),
                 mem (binding1 bg) ! wrapIndex (uint x + 1) (uint y - 1),
                 mem (binding1 bg) ! wrapIndex (uint x) (uint y - 1),
                 mem (binding1 bg) ! wrapIndex (uint x - 1) (uint y - 1),
                 mem (binding1 bg) ! wrapIndex (uint x - 1) (uint y),
                 mem (binding1 bg) ! wrapIndex (uint x - 1) (uint y + 1),
                 mem (binding1 bg) ! wrapIndex (uint x) (uint y + 1)]"
  using neighbourColors_wrap [of bg mem x y z,
      OF bindGroups_cases(1) [OF assms(1)] bindGroups_lengths(1) [OF assms]]
  by (simp add: neighbours_def neighbourOffsets_def)

theorem neighbours_wrap_toroidally_witness:
  "neighbourColors \<lparr>binding0 = uniformArray, binding1 = 0, binding2 = 1\<rparr>
       ((\<lambda>k. replicate 262144 0)
          (0 := (replicate 262144 0)[511 * 512 + 511 := 1, 0 * 512 + 511 := 2, 511 * 512 + 0 := 3]))
       (0, 0, 0) = Some [0, 0, 0, 3, 1, 2, 0, 0]
   \<and> wrapIndex (0 - 1) (0 - 1) = 511 * 512 + 511
   \<and> wrapIndex (0 - 1) 0 = 0 * 512 + 511
   \<and> wrapIndex 0 (0 - 1) = 511 * 512 + 0"
proof -
  let ?bg = "\<lparr>binding0 = uniformArray, binding1 = 0, binding2 = 1\<rparr>"
  let ?mem = "(\<lambda>k. replicate 262144 0)
          (0 := (replicate 262144 0)[511 * 512 + 511 := 1, 0 * 512 + 511 := 2, 511 * 512 + 0 := 3])
          :: memory"
  have h1: "?bg \<in> set bindGroups" by (simp add: bindGroups_def)
  have h2: "length (?mem 0) = GRID_SIZE * GRID_SIZE" by (simp add: GRID_SIZE_def)
  have h3: "length (?mem 1) = GRID_SIZE * GRID_SIZE" by (simp add: GRID_SIZE_def)
  have "neighbourColors ?bg ?mem (0, 0, 0) = Some [0, 0, 0, 3, 1, 2, 0, 0]"
    by (subst neighbours_wrap_toroidally [OF h1 h2 h3]) (simp add: wrapIndex_def GRID_SIZE_def)
  then show ?thesis by (simp add: wrapIndex_def GRID_SIZE_def)
qed

section \<open>Birth and the colour average\<close>

lemma wrapIndex_inj:
  assumes "wrapIndex a b = wrapIndex a' b'"
  shows "a mod 512 = a' mod 512" and "b mod 512 = b' mod 512"
proof -
  have "nat (a mod int GRID_SIZE) = nat (a' mod int GRID_SIZE)"
    using assms wrapIndex_mod by metis
  then show "a mod 512 = a' mod 512" by (simp add: GRID_SIZE_def)
  have "nat (b mod int GRID_SIZE) = nat (b' mod int GRID_SIZE)"
    using assms wrapIndex_div by metis
  then show "b mod 512 = b' mod 512" by (simp add: GRID_SIZE_def)
qed

lemma succ_mod_neq: "(a + 1) mod 512 \<noteq> a mod (512::int)"
  and pred_mod_neq: "(a - 1) mod 512 \<noteq> a mod (512::int)"
  by (simp_all add: mod_eq_dvd_iff)

lemma wrapIndex_neighbour_neq:
  "wrapIndex (x + 1) b \<noteq> wrapIndex x y"
  "wrapIndex (x - 1) b \<noteq> wrapIndex x y"
  "wrapIndex a (y + 1) \<noteq> wrapIndex x y"
  "wrapIndex a (y - 1) \<noteq> wrapIndex x y"
  using wrapIndex_inj succ_mod_neq pred_mod_neq by blast+

lemma neighbours_own:
  "neighbours (buf[wrapIndex x y := v]) x y = neighbours buf x y"
  by (simp add: neighbours_def neighbourOffsets_def wrapIndex_neighbour_neq [symmetric])

lemma sum_list_map_mset:
  fixes f :: "'a \<Rightarrow> 'b::comm_monoid_add"
  assumes "mset xs = mset ys"
  shows "sum_list (map f xs) = sum_list (map f ys)"
proof -
  have "sum_list (map f xs) = sum_mset (image_mset f (mset xs))"
    by (simp add: sum_mset_sum_list [symmetric])
  also have "\<dots> = sum_mset (image_mset f (mset ys))" by (simp only: assms)
  also have "\<dots> = sum_list (map f ys)" by (simp add: sum_mset_sum_list [symmetric])
  finally show ?thesis .
qed

lemma averageColor_mset:
  assumes "mset xs = mset ys" and "length ys = 8"
  shows "averageColor xs = averageColor ys"
proof -
  have len: "length xs = 8" using assms mset_eq_length by fastforce
  show ?thesis
    unfolding averageColor_sums [OF len] averageColor_sums [OF assms(2)]
    by (simp only: sum_list_map_mset [OF assms(1)])
qed

lemma averageColor_rgb:
  "averageColor [255, push_bit 8 255, push_bit 16 255, 0, 0, 0, 0, 0]
     = 85 OR push_bit 8 85 OR push_bit 16 85"
  by (simp add: averageColor_def averageColor_loop.simps)

text \<open>
  Claim C1 (birth). For every cell \<open>(x, y)\<close> of the grid whose eight neighbours hold
  exactly three non-zero values, the invocation of \<open>computeMain\<close> stores
  \<open>averageColor\<close> of the eight neighbour values at the cell's index of the write
  buffer, and after the whole pass the write buffer holds it there. \<open>averageColor\<close>
  computes, without any wrap-around of its \<open>u32\<close> sums, what the specification
  describes: each channel summed in place over all eight values, the bias 2 at the
  channel's bit position added, the sum divided by 3 and the quotient masked with the
  channel's mask, unclamped. The cell's own value does not enter: whatever is stored at
  the cell's own index of the read buffer, the eight gathered values are the same. For
  pure red, pure green, pure blue and five dead neighbours, in any arrangement, the
  result is \<open>85 | 85 << 8 | 85 << 16\<close>.
\<close>

theorem birth_writes_averageColor:
  assumes "bg \<in> set bindGroups"
    and "length (mem 0) = GRID_SIZE * GRID_SIZE"
    and "length (mem 1) = GRID_SIZE * GRID_SIZE"
    and "x < GRID_SIZE" and "y < GRID_SIZE"
    and "neighbourColors bg mem (of_nat x, of_nat y, 0) = Some colors"
    and "countNonZero colors = 3"
  shows "computeMain bg mem (of_nat x, of_nat y, 0) =
           Some (mem(binding2 bg := (mem (binding2 bg))
                   [y * GRID_SIZE + x := averageColor colors]))
         \<and> (\<exists>mem'. computePass bg mem = Some mem'
               \<and> mem' (binding2 bg) ! (y * GRID_SIZE + x) = averageColor colors)
         \<and> unat (averageColor colors) = averageColor_spec (map unat colors)
         \<and> (\<forall>v. neighbourColors bg
                   (mem(binding1 bg := (mem (binding1 bg))[y * GRID_SIZE + x := v]))
                   (of_nat x, of_nat y, 0) = Some colors)
         \<and> (mset colors = mset [255, push_bit 8 255, push_bit 16 255, 0, 0, 0, 0, 0]
              \<longrightarrow> averageColor colors = 85 OR push_bit 8 85 OR push_bit 16 85)"
proof -
  have nb: "neighbours (mem (binding1 bg)) (int x) (int y) = colors"
    using neighbourColors_cell [OF assms(1-5), of 0] assms(6) by simp
  have len: "length colors = 8" using length_neighbours nb by blast
  have nc: "nextCell (mem (binding1 bg)) (int x) (int y) = averageColor colors"
    by (simp add: nextCell_def nb assms(7))
  have a: "computeMain bg mem (of_nat x, of_nat y, 0) =
           Some (mem(binding2 bg := (mem (binding2 bg))
                   [y * GRID_SIZE + x := averageColor colors]))"
    using computeMain_cell [OF assms(1-5), of 0] by (simp only: nc)
  have b: "\<exists>mem'. computePass bg mem = Some mem'
               \<and> mem' (binding2 bg) ! (y * GRID_SIZE + x) = averageColor colors"
    using computePass_cell [OF assms(1-5)] by (simp only: nc)
  have c: "unat (averageColor colors) = averageColor_spec (map unat colors)"
    using len by (rule averageColor_refines)
  have d: "neighbourColors bg (mem(binding1 bg := (mem (binding1 bg))[y * GRID_SIZE + x := v]))
             (of_nat x, of_nat y, 0) = Some colors" for v
  proof -
    let ?mem = "mem(binding1 bg := (mem (binding1 bg))[y * GRID_SIZE + x := v])"
    note lb = bindGroups_lengths(1) [OF assms(1-3)]
    have l0: "length (?mem 0) = GRID_SIZE * GRID_SIZE"
      using assms(2) lb by (cases "binding1 bg = 0") simp_all
    have l1: "length (?mem 1) = GRID_SIZE * GRID_SIZE"
      using assms(3) lb by (cases "binding1 bg = 1") simp_all
    have n': "neighbours (?mem (binding1 bg)) (int x) (int y) = colors"
      using neighbours_own [of "mem (binding1 bg)" "int x" "int y" v] nb
      by (simp add: wrapIndex_grid [OF assms(4,5)])
    show ?thesis
      by (simp only: neighbourColors_cell [OF assms(1) l0 l1 assms(4,5)] n')
  qed
  have e: "mset colors = mset [255, push_bit 8 255, push_bit 16 255, 0, 0, 0, 0, 0]
              \<longrightarrow> averageColor colors = 85 OR push_bit 8 85 OR push_bit 16 85"
  proof
    assume m: "mset colors = mset [255, push_bit 8 255, push_bit 16 255, 0, 0, 0, 0, 0]"
    have "averageColor colors = averageColor [255, push_bit 8 255, push_bit 16 255, 0, 0, 0, 0, 0]"
      using m by (rule averageColor_mset) simp
    then show "averageColor colors = 85 OR push_bit 8 85 OR push_bit 16 85"
      by (simp only: averageColor_rgb)
  qed
  show ?thesis using a b c d e by blast
qed

theorem birth_writes_averageColor_witness:
  "neighbourColors \<lparr>binding0 = uniformArray, binding1 = 0, binding2 = 1\<rparr>
       ((\<lambda>k. replicate 262144 0)
          (0 := (replicate 262144 0)[1 := 255, 512 := push_bit 8 255, 513 := push_bit 16 255]))
       (of_nat 0, of_nat 0, 0) = Some [push_bit 16 255, 255, 0, 0, 0, 0, 0, push_bit 8 255]
   \<and> countNonZero [push_bit 16 255, 255, 0, 0, 0, 0, 0, push_bit 8 255] = 3
   \<and> (\<exists>mem'. computePass \<lparr>binding0 = uniformArray, binding1 = 0, binding2 = 1\<rparr>
                 ((\<lambda>k. replicate 262144 0)
                    (0 := (replicate 262144 0)[1 := 255, 512 := push_bit 8 255, 513 := push_bit 16 255]))
               = Some mem'
             \<and> mem' 1 ! 0 = 5592405)"
proof -
  let ?bg = "\<lparr>binding0 = uniformArray, binding1 = 0, binding2 = 1\<rparr>"
  let ?mem = "(\<lambda>k. replicate 262144 0)
          (0 := (replicate 262144 0)[1 := 255, 512 := push_bit 8 255, 513 := push_bit 16 255])
          :: memory"
  let ?colors = "[push_bit 16 255, 255, 0, 0, 0, 0, 0, push_bit 8 255] :: u32 list"
  have h1: "?bg \<in> set bindGroups" by (simp add: bindGroups_def)
  have h2: "length (?mem 0) = GRID_SIZE * GRID_SIZE" by (simp add: GRID_SIZE_def)
  have h3: "length (?mem 1) = GRID_SIZE * GRID_SIZE" by (simp add: GRID_SIZE_def)
  have h4: "(0::nat) < GRID_SIZE" by (simp add: GRID_SIZE_def)
  have h5: "neighbourColors ?bg ?mem (of_nat 0, of_nat 0, 0) = Some ?colors"
    by (simp add: neighbourColors_def cellColor_def load_def cellIndex_def umod_def uniformArray_def
        u32_of_f32_GRID)
  have h6: "countNonZero ?colors = 3"
    by (simp add: countNonZero_def countNonZero_loop.simps)
  have v: "averageColor [16711680, 255, 0, 0, 0, 0, 0, 65280] = 5592405"
    by (simp add: averageColor_def averageColor_loop.simps)
  from birth_writes_averageColor [OF h1 h2 h3 h4 h4 h5 h6]
  have "\<exists>mem'. computePass ?bg ?mem = Some mem'
          \<and> mem' (binding2 ?bg) ! (0 * GRID_SIZE + 0) = averageColor ?colors"
    by blast
  then show ?thesis using h5 h6 by (simp add: v)
qed

section \<open>Channels\<close>

lemma channel_zero: "channel k 0 = 0"
  by (simp add: channel_def)

lemma channel_le: "channel k c \<le> 255"
proof -
  have "channel k c < 256" unfolding channel_def by simp
  then show ?thesis by simp
qed

lemma channel_sum_le:
  "sum_list (map (channel k) cs) \<le> 255 * length (filter (\<lambda>c. c \<noteq> 0) cs)"
proof (induction cs)
  case Nil
  then show ?case by simp
next
  case (Cons c cs)
  show ?case
  proof (cases "c = 0")
    case True
    then show ?thesis using Cons.IH by (simp add: channel_zero)
  next
    case False
    then show ?thesis using Cons.IH channel_le [of k c] by simp
  qed
qed

lemma averageColor_channels:
  assumes "length colors = 8"
  shows "channel 0 (averageColor colors) = ((sum_list (map (channel 0) colors) + 2) div 3) mod 256"
    and "channel 1 (averageColor colors) = ((sum_list (map (channel 1) colors) + 2) div 3) mod 256"
    and "channel 2 (averageColor colors) = ((sum_list (map (channel 2) colors) + 2) div 3) mod 256"
    and "channel 3 (averageColor colors) = 0"
proof -
  let ?r = "((sum_list (map (channel 0) colors) + 2) div 3) mod 256"
  let ?g = "((sum_list (map (channel 1) colors) + 2) div 3) mod 256"
  let ?b = "((sum_list (map (channel 2) colors) + 2) div 3) mod 256"
  have u: "unat (averageColor colors) = ?r + 256 * ?g + 65536 * ?b"
    by (simp only: averageColor_refines [OF assms] averageColor_spec_channels)
  have lt: "?r < 256" "?g < 256" "?b < 256" by simp_all
  from channels_of_packed [OF lt u]
  show "channel 0 (averageColor colors) = ?r"
    and "channel 1 (averageColor colors) = ?g"
    and "channel 2 (averageColor colors) = ?b"
    and "channel 3 (averageColor colors) = 0"
    by blast+
qed

lemma birth_channel_exact:
  assumes "length colors = 8" and "countNonZero colors = 3" and "k < 3"
  shows "channel k (averageColor colors) = (sum_list (map (channel k) colors) + 2) div 3"
    and "(sum_list (map (channel k) colors) + 2) div 3 \<le> 255"
proof -
  have "unat (countNonZero colors) = 3" using assms(2) by simp
  then have "length (filter (\<lambda>c. c \<noteq> 0) colors) = 3"
    using unat_countNonZero [OF assms(1)] by simp
  then have "sum_list (map (channel k) colors) \<le> 765"
    using channel_sum_le [of k colors] by simp
  then have small: "(sum_list (map (channel k) colors) + 2) div 3 < 256" by simp
  then show "(sum_list (map (channel k) colors) + 2) div 3 \<le> 255" by simp
  have "k = 0 \<or> k = 1 \<or> k = 2" using assms(3) by auto
  then show "channel k (averageColor colors) = (sum_list (map (channel k) colors) + 2) div 3"
    using averageColor_channels(1-3) [OF assms(1)] small by auto
qed

lemma nextAt_top_byte:
  assumes "\<forall>j<GRID_SIZE * GRID_SIZE. channel 3 (buf ! j) = 0"
  shows "channel 3 (nextAt buf j) = 0"
proof -
  let ?x = "int (j mod GRID_SIZE)" and ?y = "int (j div GRID_SIZE)"
  have own: "channel 3 (buf ! wrapIndex ?x ?y) = 0"
    using assms wrapIndex_less by blast
  have avg: "channel 3 (averageColor (neighbours buf ?x ?y)) = 0"
    using length_neighbours by (rule averageColor_channels(4))
  show ?thesis
    unfolding nextAt_def nextCell_def Let_def using own avg by (simp add: channel_zero)
qed

text \<open>
  Claim C5 (channels stay in range). If every cell of the read buffer has a zero top
  byte, then after one compute pass every cell of the write buffer has a zero top byte
  and its three channels in 0 to 255. In the birth case no channel overflows: each
  channel of the value written is exactly the channel's sum over the eight neighbours
  plus 2, divided by 3 (at most 255, so that the mask cuts nothing off and nothing
  carries into the next channel). Survival copies a value of the read buffer and death
  writes 0.
\<close>

theorem channels_stay_in_range:
  assumes "bg \<in> set bindGroups"
    and "length (mem 0) = GRID_SIZE * GRID_SIZE"
    and "length (mem 1) = GRID_SIZE * GRID_SIZE"
    and "\<forall>j<GRID_SIZE * GRID_SIZE. channel 3 (mem (binding1 bg) ! j) = 0"
  shows "\<exists>mem'. computePass bg mem = Some mem'
           \<and> length (mem' (binding2 bg)) = GRID_SIZE * GRID_SIZE
           \<and> (\<forall>j<GRID_SIZE * GRID_SIZE.
                  channel 3 (mem' (binding2 bg) ! j) = 0
                  \<and> (\<forall>k<3. channel k (mem' (binding2 bg) ! j) \<le> 255))
           \<and> (\<forall>x<GRID_SIZE. \<forall>y<GRID_SIZE. \<forall>colors.
                  neighbourColors bg mem (of_nat x, of_nat y, 0) = Some colors
                  \<and> countNonZero colors = 3
                  \<longrightarrow> (\<forall>k<3. channel k (mem' (binding2 bg) ! (y * GRID_SIZE + x))
                               = (sum_list (map (channel k) colors) + 2) div 3))"
proof -
  let ?buf = "mem (binding1 bg)"
  let ?out = "map (nextAt ?buf) [0..<GRID_SIZE * GRID_SIZE]"
  let ?mem' = "mem(binding2 bg := ?out)"
  have pass: "computePass bg mem = Some ?mem'" by (rule computePass_eq [OF assms(1-3)])
  have out: "?mem' (binding2 bg) = ?out" by simp
  have nth: "?out ! j = nextAt ?buf j" if "j < GRID_SIZE * GRID_SIZE" for j
    using that by simp
  have top: "channel 3 (?out ! j) = 0 \<and> (\<forall>k<3. channel k (?out ! j) \<le> 255)"
    if "j < GRID_SIZE * GRID_SIZE" for j
    using nextAt_top_byte [OF assms(4)] nth [OF that] channel_le by simp
  have birth: "channel k (?out ! (y * GRID_SIZE + x)) = (sum_list (map (channel k) colors) + 2) div 3"
    if xy: "x < GRID_SIZE" "y < GRID_SIZE"
      and nc: "neighbourColors bg mem (of_nat x, of_nat y, 0) = Some colors"
      and cnt: "countNonZero colors = 3" and k: "k < 3"
    for x y colors k
  proof -
    have nb: "neighbours ?buf (int x) (int y) = colors"
      using neighbourColors_cell [OF assms(1-3) xy, of 0] nc by simp
    have len: "length colors = 8" using length_neighbours nb by blast
    have lt: "y * GRID_SIZE + x < GRID_SIZE * GRID_SIZE" using xy by (rule cell_index_less)
    have "nextAt ?buf (y * GRID_SIZE + x) = nextCell ?buf (int x) (int y)"
      using nextCell_nextAt [of ?buf "int x" "int y"] xy by (simp add: wrapIndex_grid)
    also have "\<dots> = averageColor colors" by (simp add: nextCell_def nb cnt)
    finally have "?out ! (y * GRID_SIZE + x) = averageColor colors"
      using nth [OF lt] by simp
    then show ?thesis using birth_channel_exact(1) [OF len cnt k] by simp
  qed
  show ?thesis
    unfolding pass out using top birth by (intro exI [of _ ?mem'] conjI) auto
qed


theorem channels_stay_in_range_witness:
  "(\<exists>mem'. computePass \<lparr>binding0 = uniformArray, binding1 = 0, binding2 = 1\<rparr>
                 ((\<lambda>k. replicate 262144 0)
                    (0 := (replicate 262144 0)[1 := 255, 512 := 65280, 513 := 16711680]))
               = Some mem'
             \<and> channel 3 (mem' 1 ! 0) = 0
             \<and> channel 0 (mem' 1 ! 0) = 85
             \<and> channel 1 (mem' 1 ! 0) = 85
             \<and> channel 2 (mem' 1 ! 0) = 85)"
proof -
  let ?bg = "\<lparr>binding0 = uniformArray, binding1 = 0, binding2 = 1\<rparr>"
  let ?buf = "(replicate 262144 0)[1 := 255, 512 := 65280, 513 := 16711680] :: u32 list"
  let ?mem = "(\<lambda>k. replicate 262144 0)(0 := ?buf) :: memory"
  let ?colors = "[16711680, 255, 0, 0, 0, 0, 0, 65280] :: u32 list"
  have h1: "?bg \<in> set bindGroups" by (simp add: bindGroups_def)
  have h2: "length (?mem 0) = GRID_SIZE * GRID_SIZE" by (simp add: GRID_SIZE_def)
  have h3: "length (?mem 1) = GRID_SIZE * GRID_SIZE" by (simp add: GRID_SIZE_def)
  have top: "\<forall>j<GRID_SIZE * GRID_SIZE. channel 3 (?buf ! j) = 0"
    by (simp add: GRID_SIZE_def nth_list_update channel_def)
  then have h4: "\<forall>j<GRID_SIZE * GRID_SIZE. channel 3 (?mem (binding1 ?bg) ! j) = 0" by simp
  have h5: "(0::nat) < GRID_SIZE" by (simp add: GRID_SIZE_def)
  have h6: "neighbourColors ?bg ?mem (of_nat 0, of_nat 0, 0) = Some ?colors"
    by (simp add: neighbourColors_def cellColor_def load_def cellIndex_def umod_def uniformArray_def
        u32_of_f32_GRID)
  have h7: "countNonZero ?colors = 3"
    by (simp add: countNonZero_def countNonZero_loop.simps)
  have c0: "(sum_list (map (channel 0) ?colors) + 2) div 3 = 85"
    and c1: "(sum_list (map (channel 1) ?colors) + 2) div 3 = 85"
    and c2: "(sum_list (map (channel 2) ?colors) + 2) div 3 = 85"
    by (simp_all add: channel_def)
  from channels_stay_in_range [OF h1 h2 h3 h4]
  obtain mem' where p: "computePass ?bg ?mem = Some mem'"
    and t: "\<forall>j<GRID_SIZE * GRID_SIZE. channel 3 (mem' (binding2 ?bg) ! j) = 0
              \<and> (\<forall>k<3. channel k (mem' (binding2 ?bg) ! j) \<le> 255)"
    and b: "\<forall>x<GRID_SIZE. \<forall>y<GRID_SIZE. \<forall>colors.
              neighbourColors ?bg ?mem (of_nat x, of_nat y, 0) = Some colors
              \<and> countNonZero colors = 3
              \<longrightarrow> (\<forall>k<3. channel k (mem' (binding2 ?bg) ! (y * GRID_SIZE + x))
                           = (sum_list (map (channel k) colors) + 2) div 3)"
    by blast
  have "0 < GRID_SIZE * GRID_SIZE" by (simp add: GRID_SIZE_def)
  then have t0: "channel 3 (mem' 1 ! 0) = 0" using t by simp
  from b h5 h6 h7
  have k: "\<forall>k<3. channel k (mem' (binding2 ?bg) ! (0 * GRID_SIZE + 0))
                 = (sum_list (map (channel k) ?colors) + 2) div 3"
    by blast
  have "channel 0 (mem' 1 ! 0) = 85" "channel 1 (mem' 1 ! 0) = 85" "channel 2 (mem' 1 ! 0) = 85"
    using k c0 c1 c2 by simp_all
  then show ?thesis using p t0 by blast
qed

section \<open>Rounding\<close>

lemma powi_add_nat: "(2::real) powi (k + int n) = 2 powi k * 2 ^ n"
  by (simp add: power_int_add)

lemma rne_of_int: "rne (of_int n) = n"
  by (simp add: rne_def)


lemma rne_near: "\<bar>q - of_int n\<bar> < 1 / 2 \<Longrightarrow> rne q = n"
proof -
  assume a: "\<bar>q - of_int n\<bar> < 1 / 2"
  have "\<lfloor>q\<rfloor> = n \<and> q - of_int n < 1 / 2 \<or> \<lfloor>q\<rfloor> = n - 1 \<and> 1 / 2 < q - of_int (n - 1)"
  proof (cases "of_int n \<le> q")
    case True
    then have "\<lfloor>q\<rfloor> = n" using a by (intro floor_unique) (auto simp add: abs_if split: if_splits)
    then show ?thesis using a True by (auto simp add: abs_if split: if_splits)
  next
    case False
    then have "\<lfloor>q\<rfloor> = n - 1" using a by (intro floor_unique) (auto simp add: abs_if split: if_splits)
    then show ?thesis using a False by (auto simp add: abs_if split: if_splits)
  qed
  then show ?thesis unfolding rne_def Let_def by auto
qed


lemma floor_log2_binade:
  assumes "2 powi e \<le> a" and "a < 2 powi (e + 1)"
  shows "\<lfloor>log 2 a\<rfloor> = e"
proof -
  have pos: "0 < a" using assms(1) zero_less_power_int [of "2::real" e] by linarith
  have p: "(2::real) powr (of_int k) = 2 powi k" for k
    by (simp add: powr_real_of_int' power_int_def)
  show ?thesis
    using assms pos p [of e] p [of "e + 1"] by (simp add: floor_log_eq_powr_iff)
qed

lemma round_to_at:
  assumes "0 < p" and "u = 2 powi k" and "2 ^ (p - 1) * u \<le> \<bar>r\<bar>" and "\<bar>r\<bar> < 2 ^ p * u"
  shows "round_to p r = of_int (rne (r / u)) * u"
proof -
  have upos: "0 < u" by (simp add: assms(2))
  have "0 < 2 ^ (p - 1) * u" using upos by simp
  then have nz: "r \<noteq> 0" using assms(3) by auto
  have lo: "2 powi (k + int (p - 1)) \<le> \<bar>r\<bar>"
    unfolding powi_add_nat using assms(3) by (simp add: assms(2) mult.commute)
  have "k + int (p - 1) + 1 = k + int p" using assms(1) by simp
  then have "(2::real) powi (k + int (p - 1) + 1) = 2 powi (k + int p)" by simp
  then have hi: "\<bar>r\<bar> < 2 powi (k + int (p - 1) + 1)"
    unfolding powi_add_nat using assms(4) by (simp add: assms(2) mult.commute)
  have "\<lfloor>log 2 \<bar>r\<bar>\<rfloor> = k + int (p - 1)" using lo hi by (rule floor_log2_binade)
  moreover have "int (p - 1) = int p - 1" using assms(1) by simp
  ultimately have "\<lfloor>log 2 \<bar>r\<bar>\<rfloor> - (int p - 1) = k" by simp
  then show ?thesis using nz by (simp add: round_to_def Let_def assms(2))
qed


lemma binade_of_int:
  assumes "m \<noteq> 0" and "\<bar>m\<bar> < 2 ^ p"
  shows "\<exists>j<p. (2::int) ^ j \<le> \<bar>m\<bar> \<and> \<bar>m\<bar> < 2 ^ (j + 1)"
proof -
  have "1 \<le> nat \<bar>m\<bar>" using assms(1) by simp
  from ex_power_ivl1 [of 2, OF _ this]
  obtain j where j: "2 ^ j \<le> nat \<bar>m\<bar>" "nat \<bar>m\<bar> < 2 ^ (j + 1)" by auto
  have lo: "(2::int) ^ j \<le> \<bar>m\<bar>" using j(1) by (simp add: le_nat_iff)
  have hi: "\<bar>m\<bar> < (2::int) ^ (j + 1)" using j(2) by (simp add: nat_less_iff)
  have "(2::int) ^ j < 2 ^ p" using lo assms(2) by linarith
  then have "j < p" by (rule power_less_imp_less_exp [rotated]) simp
  then show ?thesis using lo hi by (intro exI [of _ j]) simp
qed

lemma round_to_exact:
  assumes "\<bar>m\<bar> < 2 ^ p"
  shows "round_to p (of_int m * 2 powi k) = of_int m * 2 powi k"
proof (cases "m = 0")
  case True
  then show ?thesis by (simp add: round_to_def)
next
  case False
  from binade_of_int [OF False assms]
  obtain j where j: "j < p" "(2::int) ^ j \<le> \<bar>m\<bar>" "\<bar>m\<bar> < 2 ^ (j + 1)" by blast
  let ?r = "real_of_int m * 2 powi k"
  define n where "n = p - 1 - j"
  define k' where "k' = k - int n"
  define u :: real where "u = 2 powi k'"
  have upos: "0 < u" by (simp add: u_def)
  have p0: "0 < p" using j(1) by simp
  have nj: "n + j = p - 1" using j(1) by (simp add: n_def)
  have lo': "(2::real) ^ j \<le> real_of_int \<bar>m\<bar>"
    using j(2) by (metis of_int_le_iff of_int_numeral of_int_power)
  have hi': "real_of_int \<bar>m\<bar> < (2::real) ^ (j + 1)"
    using j(3) by (metis of_int_less_iff of_int_numeral of_int_power)
  have "k = k' + int n" by (simp add: k'_def)
  then have "(2::real) powi k = 2 powi (k' + int n)" by simp
  then have sh: "(2::real) powi k = u * 2 ^ n"
    unfolding powi_add_nat u_def .
  have am: "\<bar>?r\<bar> = real_of_int \<bar>m\<bar> * (u * 2 ^ n)"
    unfolding sh using upos by (simp add: abs_mult)
  have pw: "(2::real) ^ n * 2 ^ j = 2 ^ (p - 1)"
    using nj by (simp add: power_add [symmetric])
  have pw': "(2::real) ^ n * 2 ^ (j + 1) = 2 ^ p"
  proof -
    have "n + (j + 1) = p" using nj p0 by simp
    then show ?thesis by (simp only: power_add [symmetric])
  qed
  have b1: "2 ^ (p - 1) * u \<le> \<bar>?r\<bar>"
  proof -
    have "2 ^ (p - 1) * u = 2 ^ j * (u * 2 ^ n)" using pw by (simp add: mult.commute mult.left_commute)
    also have "\<dots> \<le> real_of_int \<bar>m\<bar> * (u * 2 ^ n)"
      using lo' upos by (intro mult_right_mono) simp_all
    finally show ?thesis by (simp only: am)
  qed
  have b2: "\<bar>?r\<bar> < 2 ^ p * u"
  proof -
    have "real_of_int \<bar>m\<bar> * (u * 2 ^ n) < 2 ^ (j + 1) * (u * 2 ^ n)"
      using hi' upos by (intro mult_strict_right_mono) simp_all
    also have "\<dots> = 2 ^ p * u" using pw' by (simp add: mult.commute mult.left_commute)
    finally show ?thesis by (simp only: am)
  qed
  have q: "?r / u = of_int (m * 2 ^ n)"
    unfolding sh using upos by simp
  have "round_to p ?r = of_int (rne (?r / u)) * u"
    using p0 u_def b1 b2 by (rule round_to_at)
  also have "\<dots> = of_int (m * 2 ^ n) * u"
    by (simp only: q rne_of_int)
  also have "\<dots> = ?r" unfolding sh by simp
  finally show ?thesis .
qed











text \<open>The values of the literals of \<open>widget.js\<close>.\<close>

lemma unit_powi:
  "(1 / 2 ^ 57 :: real) = 2 powi (- 57)"
  "(1 / 2 ^ 56 :: real) = 2 powi (- 56)"
  "(1 / 2 ^ 53 :: real) = 2 powi (- 53)"
  "(1 / 2 ^ 24 :: real) = 2 powi (- 24)"
  "(1 / 2 ^ 23 :: real) = 2 powi (- 23)"
  "(1 / 2 ^ 22 :: real) = 2 powi (- 22)"
  by (simp_all add: power_int_minus field_simps)


lemma double_literal_0_04: "double_literal 0.04 = 5764607523034235 / 2 ^ 57"
proof -
  have "rne (0.04 / (1 / 2 ^ 57)) = 5764607523034235" by (rule rne_near) simp
  then show ?thesis
    unfolding double_literal_def using round_to_at [OF _ unit_powi(1), of 53 "0.04"] by simp
qed

lemma double_literal_0_08: "double_literal 0.08 = 5764607523034235 / 2 ^ 56"
proof -
  have "rne (0.08 / (1 / 2 ^ 56)) = 5764607523034235" by (rule rne_near) simp
  then show ?thesis
    unfolding double_literal_def using round_to_at [OF _ unit_powi(2), of 53 "0.08"] by simp
qed

lemma double_literal_0_12: "double_literal 0.12 = 1080863910568919 / 2 ^ 53"
proof -
  have "rne (0.12 / (1 / 2 ^ 56)) = 8646911284551352" by (rule rne_near) simp
  then show ?thesis
    unfolding double_literal_def using round_to_at [OF _ unit_powi(2), of 53 "0.12"] by simp
qed





section \<open>Start-up\<close>

lemma seed_loop_result:
  "length (seed_loop rnd arr i) = length arr
   \<and> (\<forall>j<length arr. seed_loop rnd arr i ! j = (if j < i then arr ! j else cellValue (rnd j)))"
proof (induction rnd arr i rule: seed_loop.induct)
  case (1 rnd arr i)
  show ?case
  proof (cases "i < length arr")
    case True
    note ih = "1" [OF True]
    have unfold: "seed_loop rnd arr i = seed_loop rnd (arr[i := cellValue (rnd i)]) (i + 1)"
      using True by (subst seed_loop.simps) simp
    show ?thesis
      unfolding unfold using ih True by (auto simp add: nth_list_update less_Suc_eq)
  next
    case False
    then show ?thesis by (subst (1 2) seed_loop.simps) simp
  qed
qed

lemma initial_state_storage:
  "cellStateStorage (initial_state rnd) =
     (\<lambda>k. [])(0 := seed_loop rnd (replicate (GRID_SIZE * GRID_SIZE) 0) 0,
               1 := replicate (GRID_SIZE * GRID_SIZE) 0)"
  using seed_loop_result [of rnd "replicate (GRID_SIZE * GRID_SIZE) 0" 0]
  by (auto simp add: initial_state_def Let_def writeBuffer_def createBuffer_def fun_eq_iff)

lemma initial_state_lengths:
  "length (cellStateStorage (initial_state rnd) 0) = GRID_SIZE * GRID_SIZE"
  "length (cellStateStorage (initial_state rnd) 1) = GRID_SIZE * GRID_SIZE"
  "step (initial_state rnd) = 0"
  using seed_loop_result [of rnd "replicate (GRID_SIZE * GRID_SIZE) 0" 0]
  by (simp_all add: initial_state_storage) (simp add: initial_state_def Let_def)

lemma initial_state_cell:
  "i < GRID_SIZE * GRID_SIZE \<Longrightarrow> cellStateStorage (initial_state rnd) 0 ! i = cellValue (rnd i)"
  using seed_loop_result [of rnd "replicate (GRID_SIZE * GRID_SIZE) 0" 0]
  by (simp add: initial_state_storage)

lemma cellValue_thresholds:
  "cellValue random =
     (if random < 5764607523034235 / 2 ^ 57 then 255
      else if random < 5764607523034235 / 2 ^ 56 then push_bit 8 255
      else if random < 1080863910568919 / 2 ^ 53 then push_bit 16 255
      else 0)"
  unfolding cellValue_def double_literal_0_04 double_literal_0_08 double_literal_0_12
  by (rule refl)

text \<open>
  Claim C8 (seeding), amended. The buffer \<open>cellStateStorage[0]\<close> holds
  \<open>GRID_SIZE * GRID_SIZE\<close> cells after start-up, and cell \<open>i\<close>, whose sample of
  \<open>Math.random()\<close> is \<open>rnd i\<close>, is 255 (pure red) if \<open>rnd i < t1\<close>, else \<open>255 << 8\<close>
  (pure green) if \<open>rnd i < t2\<close>, else \<open>255 << 16\<close> (pure blue) if \<open>rnd i < t3\<close>, else 0.
  The thresholds are the values of the number literals \<open>0.04\<close>, \<open>0.08\<close> and \<open>0.12\<close>:
  \<open>t1 = 5764607523034235 / 2 ^ 57\<close>, which is above 0.04,
  \<open>t2 = 5764607523034235 / 2 ^ 56\<close>, which is above 0.08, and
  \<open>t3 = 1080863910568919 / 2 ^ 53\<close>, which is below 0.12. The one \<open>writeBuffer\<close>
  goes to buffer 0: buffer 1 is left as \<open>createBuffer\<close> made it, and the step counter
  starts at 0.
\<close>

theorem seeding_assigns_colours:
  "length (cellStateStorage (initial_state rnd) 0) = GRID_SIZE * GRID_SIZE
   \<and> (\<forall>i<GRID_SIZE * GRID_SIZE.
          cellStateStorage (initial_state rnd) 0 ! i =
            (if rnd i < 5764607523034235 / 2 ^ 57 then 255
             else if rnd i < 5764607523034235 / 2 ^ 56 then push_bit 8 255
             else if rnd i < 1080863910568919 / 2 ^ 53 then push_bit 16 255
             else 0))
   \<and> double_literal 0.04 = 5764607523034235 / 2 ^ 57
   \<and> double_literal 0.08 = 5764607523034235 / 2 ^ 56
   \<and> double_literal 0.12 = 1080863910568919 / 2 ^ 53
   \<and> (0.04::real) < 5764607523034235 / 2 ^ 57
   \<and> (0.08::real) < 5764607523034235 / 2 ^ 56
   \<and> (1080863910568919 / 2 ^ 53 :: real) < 0.12
   \<and> cellStateStorage (initial_state rnd) 1 = replicate (GRID_SIZE * GRID_SIZE) 0
   \<and> step (initial_state rnd) = 0"
proof -
  have cells: "\<forall>i<GRID_SIZE * GRID_SIZE.
          cellStateStorage (initial_state rnd) 0 ! i =
            (if rnd i < 5764607523034235 / 2 ^ 57 then 255
             else if rnd i < 5764607523034235 / 2 ^ 56 then push_bit 8 255
             else if rnd i < 1080863910568919 / 2 ^ 53 then push_bit 16 255
             else 0)"
    using initial_state_cell [of _ rnd] cellValue_thresholds by simp
  have b1: "cellStateStorage (initial_state rnd) 1 = replicate (GRID_SIZE * GRID_SIZE) 0"
    by (simp add: initial_state_storage)
  have ineq: "(0.04::real) < 5764607523034235 / 2 ^ 57"
    "(0.08::real) < 5764607523034235 / 2 ^ 56"
    "(1080863910568919 / 2 ^ 53 :: real) < 0.12"
    by simp_all
  show ?thesis
    using cells b1 ineq initial_state_lengths(1,3) [of rnd]
      double_literal_0_04 double_literal_0_08 double_literal_0_12
    by blast
qed

theorem seeding_assigns_colours_witness:
  "cellStateStorage
     (initial_state (\<lambda>i. if i = 0 then 0.01 else if i = 1 then 0.05 else if i = 2 then 0.1 else 0.5))
     0 ! 0 = 255
   \<and> cellStateStorage
     (initial_state (\<lambda>i. if i = 0 then 0.01 else if i = 1 then 0.05 else if i = 2 then 0.1 else 0.5))
     0 ! 1 = push_bit 8 255
   \<and> cellStateStorage
     (initial_state (\<lambda>i. if i = 0 then 0.01 else if i = 1 then 0.05 else if i = 2 then 0.1 else 0.5))
     0 ! 2 = push_bit 16 255
   \<and> cellStateStorage
     (initial_state (\<lambda>i. if i = 0 then 0.01 else if i = 1 then 0.05 else if i = 2 then 0.1 else 0.5))
     0 ! 3 = 0"
proof -
  let ?rnd = "\<lambda>i::nat. if i = 0 then 0.01 else if i = 1 then 0.05 else if i = 2 then 0.1 else (0.5::real)"
  have lt: "0 < GRID_SIZE * GRID_SIZE" "1 < GRID_SIZE * GRID_SIZE"
    "2 < GRID_SIZE * GRID_SIZE" "3 < GRID_SIZE * GRID_SIZE"
    by (simp_all add: GRID_SIZE_def)
  from seeding_assigns_colours [of ?rnd]
  have all: "\<forall>i<GRID_SIZE * GRID_SIZE.
          cellStateStorage (initial_state ?rnd) 0 ! i =
            (if ?rnd i < 5764607523034235 / 2 ^ 57 then 255
             else if ?rnd i < 5764607523034235 / 2 ^ 56 then push_bit 8 255
             else if ?rnd i < 1080863910568919 / 2 ^ 53 then push_bit 16 255
             else 0)"
    by blast
  show ?thesis
    using all [rule_format, OF lt(1)] all [rule_format, OF lt(2)]
      all [rule_format, OF lt(3)] all [rule_format, OF lt(4)]
    by simp
qed

text \<open>
  Claim C8 with the decimal thresholds fails at the sample \<open>1080863910568919 / 2 ^ 53\<close>,
  a number with 53 significant bits in \<open>[0, 1)\<close>, at least 0.08 and below 0.12: the
  seeding stores 0 for it, not \<open>255 << 16\<close>.
\<close>

theorem seeding_blue_threshold_counterexample:
  "(0::real) \<le> 1080863910568919 / 2 ^ 53
   \<and> (1080863910568919 / 2 ^ 53 :: real) < 1
   \<and> round_to 53 (1080863910568919 / 2 ^ 53) = 1080863910568919 / 2 ^ 53
   \<and> \<not> (1080863910568919 / 2 ^ 53 :: real) < 0.08
   \<and> (1080863910568919 / 2 ^ 53 :: real) < 0.12
   \<and> cellStateStorage (initial_state (\<lambda>i. 1080863910568919 / 2 ^ 53)) 0 ! 0 = 0
   \<and> (0 :: u32) \<noteq> push_bit 16 255"
proof -
  have lt: "0 < GRID_SIZE * GRID_SIZE" by (simp add: GRID_SIZE_def)
  have cell: "cellStateStorage (initial_state (\<lambda>i. 1080863910568919 / 2 ^ 53)) 0 ! 0 = 0"
    unfolding initial_state_cell [OF lt] cellValue_thresholds by simp
  have "\<bar>1080863910568919 :: int\<bar> < 2 ^ 53" by simp
  from round_to_exact [OF this, of "- 53"]
  have dbl: "round_to 53 (1080863910568919 / 2 ^ 53) = 1080863910568919 / 2 ^ 53"
    using unit_powi(3) by simp
  show ?thesis using cell dbl by simp
qed

section \<open>Ticks\<close>

lemma bindGroups_nth:
  "bindGroups ! (k mod 2) \<in> set bindGroups"
  "binding1 (bindGroups ! (k mod 2)) = k mod 2"
  "binding2 (bindGroups ! (k mod 2)) = (k + 1) mod 2"
  "binding0 (bindGroups ! (k mod 2)) = uniformArray"
proof -
  have "k mod 2 = 0 \<or> k mod 2 = 1" by auto
  then show "bindGroups ! (k mod 2) \<in> set bindGroups"
    "binding1 (bindGroups ! (k mod 2)) = k mod 2"
    "binding2 (bindGroups ! (k mod 2)) = (k + 1) mod 2"
    "binding0 (bindGroups ! (k mod 2)) = uniformArray"
    by (auto simp add: bindGroups_def mod_Suc)
qed

lemma updateGrid_eq:
  assumes "length (cellStateStorage s 0) = GRID_SIZE * GRID_SIZE"
    and "length (cellStateStorage s 1) = GRID_SIZE * GRID_SIZE"
  shows "updateGrid s =
     Some (\<lparr>computeBindGroup = bindGroups ! (step s mod 2),
             renderBindGroup = bindGroups ! ((step s + 1) mod 2),
             frame = renderPass (bindGroups ! ((step s + 1) mod 2))
                       ((cellStateStorage s)((step s + 1) mod 2 :=
                          map (nextAt (cellStateStorage s (step s mod 2))) [0..<GRID_SIZE * GRID_SIZE]))\<rparr>,
           \<lparr>cellStateStorage = (cellStateStorage s)((step s + 1) mod 2 :=
                          map (nextAt (cellStateStorage s (step s mod 2))) [0..<GRID_SIZE * GRID_SIZE]),
            step = step s + 1\<rparr>)"
  unfolding updateGrid_def Let_def
    computePass_eq [OF bindGroups_nth(1) assms] bindGroups_nth(2,3)
  by simp

lemma updateGrid_lengths:
  assumes "length (cellStateStorage s 0) = GRID_SIZE * GRID_SIZE"
    and "length (cellStateStorage s 1) = GRID_SIZE * GRID_SIZE"
    and "updateGrid s = Some (t, s')"
  shows "length (cellStateStorage s' 0) = GRID_SIZE * GRID_SIZE"
    and "length (cellStateStorage s' 1) = GRID_SIZE * GRID_SIZE"
    and "step s' = step s + 1"
  using assms(3) assms(1,2) unfolding updateGrid_eq [OF assms(1,2)] by auto

lemma run_ticks_ok:
  assumes "length (cellStateStorage s0 0) = GRID_SIZE * GRID_SIZE"
    and "length (cellStateStorage s0 1) = GRID_SIZE * GRID_SIZE"
  shows "\<exists>s. run_ticks k s0 = Some s
           \<and> length (cellStateStorage s 0) = GRID_SIZE * GRID_SIZE
           \<and> length (cellStateStorage s 1) = GRID_SIZE * GRID_SIZE
           \<and> step s = step s0 + k"
proof (induction k)
  case 0
  then show ?case using assms by simp
next
  case (Suc k)
  then obtain s where s: "run_ticks k s0 = Some s"
    and l0: "length (cellStateStorage s 0) = GRID_SIZE * GRID_SIZE"
    and l1: "length (cellStateStorage s 1) = GRID_SIZE * GRID_SIZE"
    and st: "step s = step s0 + k"
    by blast
  obtain t s' where u: "updateGrid s = Some (t, s')"
    using updateGrid_eq [OF l0 l1] by blast
  have "run_ticks (Suc k) s0 = Some s'" using s u by simp
  then show ?case using updateGrid_lengths [OF l0 l1 u] st by simp
qed

lemma parity_neq: "(k + 1) mod 2 \<noteq> k mod (2::nat)"
  by presburger

lemma renderPass_reads:
  "renderPass (bindGroups ! (j mod 2)) mem =
     concat (map (\<lambda>inst. map (\<lambda>p. vertexMain uniformArray (mem (j mod 2)) p (of_nat inst)) vertices)
                 [0..<GRID_SIZE * GRID_SIZE])"
  unfolding renderPass_def bindGroups_nth(2,4) by (rule refl)

text \<open>
  Claim C6 (parity). With the step counter starting at 0, the call of \<open>updateGrid\<close>
  for tick \<open>k\<close> finds \<open>step = k\<close> and succeeds. Its compute pass uses
  \<open>bindGroups[k mod 2]\<close>: it leaves in buffer \<open>(k + 1) mod 2\<close> the next generation of
  the cells that buffer \<open>k mod 2\<close> held, and leaves buffer \<open>k mod 2\<close> as it was. The
  counter is then \<open>k + 1\<close>, and the render pass uses \<open>bindGroups[step % 2]\<close> for this
  new value: the frame consists of the outputs of \<open>vertexMain\<close>, six for each instance,
  computed from the contents of buffer \<open>(k + 1) mod 2\<close> that the compute pass of this
  tick has just written. The buffer rendered is not the buffer that the compute pass of
  tick \<open>k + 1\<close> writes.
\<close>

theorem render_reads_buffer_just_written:
  "\<exists>s t s'. run_ticks k (initial_state rnd) = Some s
      \<and> step s = k
      \<and> updateGrid s = Some (t, s')
      \<and> run_ticks (Suc k) (initial_state rnd) = Some s'
      \<and> computeBindGroup t = bindGroups ! (k mod 2)
      \<and> binding1 (computeBindGroup t) = k mod 2
      \<and> binding2 (computeBindGroup t) = (k + 1) mod 2
      \<and> cellStateStorage s' ((k + 1) mod 2) =
          map (nextAt (cellStateStorage s (k mod 2))) [0..<GRID_SIZE * GRID_SIZE]
      \<and> cellStateStorage s' (k mod 2) = cellStateStorage s (k mod 2)
      \<and> step s' = k + 1
      \<and> renderBindGroup t = bindGroups ! (step s' mod 2)
      \<and> binding1 (renderBindGroup t) = (k + 1) mod 2
      \<and> frame t =
          concat (map (\<lambda>inst. map (\<lambda>p. vertexMain uniformArray
                                          (map (nextAt (cellStateStorage s (k mod 2)))
                                               [0..<GRID_SIZE * GRID_SIZE])
                                          p (of_nat inst))
                                   vertices)
                      [0..<GRID_SIZE * GRID_SIZE])
      \<and> length (frame t) = 6 * (GRID_SIZE * GRID_SIZE)
      \<and> binding1 (renderBindGroup t) \<noteq> binding2 (bindGroups ! (step s' mod 2))"
proof -
  obtain s where s: "run_ticks k (initial_state rnd) = Some s"
    and l0: "length (cellStateStorage s 0) = GRID_SIZE * GRID_SIZE"
    and l1: "length (cellStateStorage s 1) = GRID_SIZE * GRID_SIZE"
    and st: "step s = k"
    using run_ticks_ok [OF initial_state_lengths(1) [of rnd] initial_state_lengths(2) [of rnd], of k]
      initial_state_lengths(3) [of rnd]
    by auto
  define out where "out = map (nextAt (cellStateStorage s (k mod 2))) [0..<GRID_SIZE * GRID_SIZE]"
  define mem' where "mem' = (cellStateStorage s)((k + 1) mod 2 := out)"
  define t where "t = \<lparr>computeBindGroup = bindGroups ! (k mod 2),
             renderBindGroup = bindGroups ! ((k + 1) mod 2),
             frame = renderPass (bindGroups ! ((k + 1) mod 2)) mem'\<rparr>"
  define s' where "s' = \<lparr>cellStateStorage = mem', step = k + 1\<rparr>"
  have u: "updateGrid s = Some (t, s')"
    using updateGrid_eq [OF l0 l1] by (simp add: st t_def s'_def mem'_def out_def)
  have next_tick: "run_ticks (Suc k) (initial_state rnd) = Some s'"
    using s u by simp
  have written: "cellStateStorage s' ((k + 1) mod 2) = out"
    by (simp add: s'_def mem'_def)
  have kept: "cellStateStorage s' (k mod 2) = cellStateStorage s (k mod 2)"
    using parity_neq [of k] by (simp add: s'_def mem'_def)
  have fr: "frame t =
      concat (map (\<lambda>inst. map (\<lambda>p. vertexMain uniformArray out p (of_nat inst)) vertices)
                  [0..<GRID_SIZE * GRID_SIZE])"
    unfolding t_def tick.simps renderPass_reads by (simp add: mem'_def)
  have len: "length (frame t) = 6 * (GRID_SIZE * GRID_SIZE)"
    unfolding fr by (simp add: length_concat comp_def vertices_def sum_list_triv)
  have ne: "(k + 1) mod 2 \<noteq> (k + 1 + 1) mod 2" by presburger
  have cbg: "computeBindGroup t = bindGroups ! (k mod 2)"
    and rbg: "renderBindGroup t = bindGroups ! ((k + 1) mod 2)"
    and st': "step s' = k + 1"
    by (simp_all add: t_def s'_def)
  show ?thesis
    apply (rule exI [of _ s], rule exI [of _ t], rule exI [of _ s'])
    unfolding cbg rbg st' bindGroups_nth(2,3) written kept
    using s st u next_tick fr len ne
    by (simp add: out_def)
qed

section \<open>The vertex stage\<close>

























end
